theory Spec2Isabelle
  imports Complex_Main "HOL-Library.Sublist"
begin

section \<open>The prompt file-handling hook (usePromptFileHandling)\<close>

text \<open>
  A shallow embedding of the hook \<open>usePromptFileHandling\<close>: the attachment registry
  (\<open>files\<close>, a JavaScript \<open>Map\<close>), the upload callbacks, the projection to and the
  restoration from the tool-resource shape, the derived views and the abort handle.
  JavaScript strings are \<open>string\<close>, an optional field is an \<open>option\<close>, and a value is
  truthy as JavaScript has it: a string when it is not empty, an optional value when it
  is present and truthy.  The number \<open>progress\<close> is a rational: every finite double is one,
  and the code only compares it with \<open>1\<close>.  A rejected promise and a thrown exception
  are the \<open>Inl\<close> of a sum.
\<close>

subsection \<open>Data\<close>

datatype exn = Thrown string

text \<open>The browser's \<open>File\<close>: the hook reads its name, its type and its size.\<close>

record File =
  name :: string
  ftype :: string
  fsize :: nat

text \<open>
  Modelled from the spec: the declaration of the type \<open>ExtendedFile\<close> (module
  \<open>~/common\<close>) is not among the source files.  It is the attachment record of the spec,
  with the fields the hook reads and writes, under the names the hook uses: \<open>file_id\<close>
  is the record's identifier, \<open>temp_file_id\<close> the provisional one, \<open>attached\<close> the
  persisted flag, \<open>tool_resource\<close> the category, \<open>file\<close> the raw payload.  The fields
  \<open>type\<close>, \<open>size\<close> and \<open>file\<close> are \<open>type'\<close>, \<open>size'\<close> and \<open>file'\<close> here.  A field
  the hook reads with \<open>?.\<close> or tests for truth is optional; so is \<open>file_id\<close>, which the
  restoration can leave \<open>undefined\<close>.
\<close>

record ExtendedFile =
  file_id :: "string option"
  temp_file_id :: "string option"
  type' :: "string option"
  filename :: "string option"
  filepath :: "string option"
  progress :: rat
  preview :: "string option"
  size' :: nat
  width :: "nat option"
  height :: "nat option"
  attached :: "bool option"
  file' :: "File option"
  tool_resource :: "string option"
  metadata :: "string option"
  source :: "string option"

text \<open>
  Modelled from the spec: the declaration of the type \<open>TFile\<close> (package
  \<open>librechat-data-provider\<close>) is not among the source files.  It is the metadata of a
  file as the service has it: what the upload answers with (\<open>temp_file_id\<close>, \<open>file_id\<close>,
  \<open>filepath\<close> at least) and what the lookup of the restoration finds.  The fields are
  those the hook reads; a file object has these properties and no other.
\<close>

record TFile =
  tf_file_id :: string
  tf_temp_file_id :: "string option"
  tf_type :: "string option"
  tf_filename :: string
  tf_filepath :: string
  tf_bytes :: nat
  tf_width :: "nat option"
  tf_height :: "nat option"
  tf_metadata :: "string option"
  tf_source :: "string option"

text \<open>
  Modelled from the spec: the enums \<open>EToolResources\<close>, \<open>FileSources\<close> and
  \<open>EModelEndpoint\<close> (package \<open>librechat-data-provider\<close>) are not among the source
  files.  The search/index category of the spec is the member \<open>file_search\<close> and its
  image-editing category the member \<open>image_edit\<close>; each member is the string of its
  name.  The properties below need of these values only that the two categories are
  not the empty string.
\<close>

definition EToolResources_file_search :: string where
  "EToolResources_file_search = ''file_search''"

definition EToolResources_image_edit :: string where
  "EToolResources_image_edit = ''image_edit''"

definition FileSources_vectordb :: string where
  "FileSources_vectordb = ''vectordb''"

definition FileSources_local :: string where
  "FileSources_local = ''local''"

definition EModelEndpoint_agents :: string where
  "EModelEndpoint_agents = ''agents''"

text \<open>
  One value of \<open>AgentToolResources\<close>: \<open>{ file_ids?: string[] }\<close>.  The object itself is
  the list of its own properties in the order in which they were created.
\<close>

record AgentBaseResource =
  file_ids :: "string list option"

type_synonym AgentToolResources = "(string \<times> AgentBaseResource) list"

subsection \<open>JavaScript's plain objects\<close>

text \<open>
  A plain object inherits from \<open>Object.prototype\<close>: reading a property it does not own
  gives, under each of these names, a value that is truthy (a method, or under
  \<open>__proto__\<close> the prototype itself).
\<close>

definition Object_prototype :: "string list" where
  "Object_prototype =
     [''constructor'', ''__defineGetter__'', ''__defineSetter__'', ''hasOwnProperty'',
      ''__lookupGetter__'', ''__lookupSetter__'', ''isPrototypeOf'', ''propertyIsEnumerable'',
      ''toString'', ''valueOf'', ''__proto__'', ''toLocaleString'']"

text \<open>
  \<open>Object.entries\<close> and \<open>Object.keys\<close> run through the own properties: first those whose
  name is an array index (a decimal numeral without a leading zero, below 4294967295), by
  ascending value, then the others in the order of their creation.
\<close>

definition number_of :: "string \<Rightarrow> nat" where
  "number_of k = foldl (\<lambda>n c. 10 * n + (of_char c - of_char (CHR ''0''))) 0 k"

definition arrayIndex :: "string \<Rightarrow> nat option" where
  "arrayIndex k =
     (if k \<noteq> [] \<and> list_all (\<lambda>c. c \<in> set ''0123456789'') k \<and> (k = ''0'' \<or> hd k \<noteq> CHR ''0'')
         \<and> number_of k < 4294967295
      then Some (number_of k) else None)"

definition Object_entries :: "(string \<times> 'v) list \<Rightarrow> (string \<times> 'v) list" where
  "Object_entries obj =
     sort_key (\<lambda>(k, v). case arrayIndex k of None \<Rightarrow> 0 | Some n \<Rightarrow> n)
       (filter (\<lambda>(k, v). arrayIndex k \<noteq> None) obj)
     @ filter (\<lambda>(k, v). arrayIndex k = None) obj"

subsection \<open>JavaScript's Map, in insertion order\<close>

text \<open>
  \<open>Map.prototype.set\<close> replaces the value of a key that is present, where it stands, and
  appends a key that is not; \<open>delete\<close> removes the key; \<open>values()\<close> and \<open>entries()\<close> run
  in insertion order.  \<open>map_of\<close> is \<open>get\<close>.  The same list with \<open>map_set\<close> is a plain
  object's own properties under assignment.  A key of the registry is a string, or
  \<open>undefined\<close> should a record without \<open>file_id\<close> be set under its \<open>file_id\<close>.
\<close>

fun map_set :: "'k \<Rightarrow> 'v \<Rightarrow> ('k \<times> 'v) list \<Rightarrow> ('k \<times> 'v) list" where
  "map_set k v [] = [(k, v)]"
| "map_set k v ((k', v') # m) = (if k' = k then (k, v) # m else (k', v') # map_set k v m)"

definition map_delete :: "'k \<Rightarrow> ('k \<times> 'v) list \<Rightarrow> ('k \<times> 'v) list" where
  "map_delete k m = filter (\<lambda>(k', v). k' \<noteq> k) m"

definition map_values :: "('k \<times> 'v) list \<Rightarrow> 'v list" where
  "map_values m = map snd m"

subsection \<open>Truthiness and string tests\<close>

definition truthy :: "string option \<Rightarrow> bool" where
  "truthy s = (case s of None \<Rightarrow> False | Some t \<Rightarrow> t \<noteq> [])"

text \<open>\<open>s?.startsWith(p)\<close> and \<open>s?.includes(p)\<close>: \<open>undefined\<close>, which is falsy, on a missing \<open>s\<close>.\<close>

definition startsWith :: "string option \<Rightarrow> string \<Rightarrow> bool" where
  "startsWith s p = (case s of None \<Rightarrow> False | Some t \<Rightarrow> prefix p t)"

definition includes' :: "string option \<Rightarrow> string \<Rightarrow> bool" where
  "includes' s p = (case s of None \<Rightarrow> False | Some t \<Rightarrow> sublist p t)"

subsection \<open>The projection: getToolResources\<close>

text \<open>The category of a record: its explicit tag when truthy, else by its mime type.\<close>

definition toolResourceOf :: "ExtendedFile \<Rightarrow> string" where
  "toolResourceOf f =
     (if truthy (tool_resource f) then the (tool_resource f)
      else if startsWith (type' f) ''image/'' then EToolResources_image_edit
      else if type' f = Some ''application/pdf'' \<or> includes' (type' f) ''text''
        then EToolResources_file_search
      else EToolResources_file_search)"

text \<open>
  \<open>toolResources[toolResource]!.file_ids!\<close> followed by \<open>includes\<close> and \<open>push\<close>.  Under a
  name the object does not own the value read is an inherited one, which has no
  \<open>file_ids\<close>: calling \<open>includes\<close> on \<open>undefined\<close> throws a \<open>TypeError\<close>.
\<close>

definition pushFileId :: "AgentToolResources \<Rightarrow> string \<Rightarrow> string \<Rightarrow> exn + AgentToolResources" where
  "pushFileId tr c i =
     (case map_of tr c of
        None \<Rightarrow> Inl (Thrown ''TypeError'')
      | Some r \<Rightarrow>
          (case file_ids r of
             None \<Rightarrow> Inl (Thrown ''TypeError'')
           | Some ids \<Rightarrow>
               Inr (if i \<in> set ids then tr else map_set c \<lparr>file_ids = Some (ids @ [i])\<rparr> tr)))"

text \<open>
  The body of \<open>promptFiles.forEach\<close> in \<open>getToolResources\<close>.  The entry is initialised
  when \<open>toolResources[toolResource]\<close> is falsy: when the object does not own the name and
  does not inherit it either.
\<close>

definition addToolResource :: "AgentToolResources \<Rightarrow> ExtendedFile \<Rightarrow> exn + AgentToolResources" where
  "addToolResource tr f =
     (if \<not> truthy (file_id f) then Inr tr
      else
        let c = toolResourceOf f;
            tr1 = (if map_of tr c = None \<and> c \<notin> set Object_prototype
                   then map_set c \<lparr>file_ids = Some []\<rparr> tr else tr)
        in pushFileId tr1 c (the (file_id f)))"

text \<open>\<open>forEach\<close>: an exception thrown by the body ends the loop and the function.\<close>

fun forEach :: "AgentToolResources \<Rightarrow> ExtendedFile list \<Rightarrow> exn + AgentToolResources" where
  "forEach tr [] = Inr tr"
| "forEach tr (f # fs) =
     (case addToolResource tr f of Inl err \<Rightarrow> Inl err | Inr tr' \<Rightarrow> forEach tr' fs)"

definition getToolResources :: "ExtendedFile list \<Rightarrow> exn + AgentToolResources option" where
  "getToolResources promptFiles =
     (if promptFiles = [] then Inr None
      else (case forEach [] promptFiles of
              Inl err \<Rightarrow> Inl err
            | Inr tr \<Rightarrow> Inr (if tr \<noteq> [] then Some tr else None)))"

subsection \<open>The derived views: areFilesReady and fileStats\<close>

definition areFilesReady :: "ExtendedFile list \<Rightarrow> bool" where
  "areFilesReady promptFiles = list_all (\<lambda>f. truthy (file_id f) \<and> progress f = 1) promptFiles"

record stats =
  total :: nat
  images :: nat
  documents :: nat
  uploading :: nat

definition countFile :: "stats \<Rightarrow> ExtendedFile \<Rightarrow> stats" where
  "countFile st f =
     (if progress f < 1 then st\<lparr>uploading := uploading st + 1\<rparr>
      else if startsWith (type' f) ''image/'' then st\<lparr>images := images st + 1\<rparr>
      else st\<lparr>documents := documents st + 1\<rparr>)"

definition fileStats :: "ExtendedFile list \<Rightarrow> stats" where
  "fileStats promptFiles =
     foldl countFile \<lparr>total = length promptFiles, images = 0, documents = 0, uploading = 0\<rparr>
       promptFiles"

subsection \<open>The authenticated blob fetcher: createAuthenticatedBlobUrl\<close>

text \<open>
  What the hook is given: the session (\<open>useAuthContext\<close>), the network (\<open>fetch\<close>, which
  rejects or resolves to a response), \<open>URL.createObjectURL\<close> and the files of
  \<open>useGetFiles\<close>.  A response has its status and its body, whose reading
  (\<open>response.blob()\<close>) may reject too;
  \<open>response.ok\<close> is, as the Fetch standard defines it, a status from 200 to 299.
\<close>

record User =
  user_id :: string

record Response =
  r_status :: nat
  r_statusText :: string
  r_blob :: "exn + string"

definition ok :: "Response \<Rightarrow> bool" where
  "ok response = (200 \<le> r_status response \<and> r_status response \<le> 299)"

record env =
  user :: "User option"
  token :: "string option"
  fetch :: "string \<Rightarrow> (string \<times> string) list \<Rightarrow> exn + Response"
  createObjectURL :: "string \<Rightarrow> string"
  allFiles :: "TFile list"

text \<open>The body of the \<open>try\<close> block.\<close>

definition fetchBlobUrl :: "env \<Rightarrow> string \<Rightarrow> string \<Rightarrow> string \<Rightarrow> exn + string option" where
  "fetchBlobUrl e uid tok fileId =
     (case fetch e (''/api/files/download/'' @ uid @ ''/'' @ fileId)
             [(''Authorization'', ''Bearer '' @ tok)] of
        Inl err \<Rightarrow> Inl err
      | Inr response \<Rightarrow>
          if \<not> ok response then Inr None
          else (case r_blob response of
                  Inl err \<Rightarrow> Inl err
                | Inr blob \<Rightarrow> Inr (Some (createObjectURL e blob))))"

text \<open>The whole function: the guard on the session, then the \<open>try\<close> with its \<open>catch\<close>.\<close>

definition createAuthenticatedBlobUrl :: "env \<Rightarrow> string \<Rightarrow> exn + string option" where
  "createAuthenticatedBlobUrl e fileId =
     (case user e of
        None \<Rightarrow> Inr None
      | Some u \<Rightarrow>
          if user_id u = [] \<or> \<not> truthy (token e) then Inr None
          else (case fetchBlobUrl e (user_id u) (the (token e)) fileId of
                  Inl err \<Rightarrow> Inr None
                | Inr r \<Rightarrow> Inr r))"

subsection \<open>The state of the hook\<close>

text \<open>
  The state the hook keeps (\<open>files\<close>, \<open>filesLoading\<close>, \<open>abortControllerRef\<close>) and what it
  does to the world, as logs: the toasts shown, the uploads submitted with
  \<open>uploadFile.mutate\<close> (the fields of the form that carry the file's identity), the images
  whose \<open>onload\<close> is still to come, the object URLs revoked and the controllers aborted.
  Writes to the console and to the logger are left out, and so are the calls of the
  owner's \<open>fileSetter\<close>, which hand the registry over and do not change it.
\<close>

record toast =
  message :: string
  status :: string

record FormData =
  fd_endpoint :: string
  fd_file :: "File option"
  fd_file_id :: string
  fd_message_file :: string
  fd_width :: "nat option"
  fd_height :: "nat option"
  fd_tool_resource :: "string option"

datatype AbortController = AbortController nat

record hook_state =
  files :: "(string option \<times> ExtendedFile) list"
  filesLoading :: bool
  abortControllerRef :: "AbortController option"
  toasts :: "toast list"
  uploads :: "FormData list"
  loading :: "(ExtendedFile \<times> string) list"
  revoked :: "string list"
  aborted :: "(AbortController \<times> string) list"

text \<open>
  The initial state.  Each initial file comes with the value \<open>v4()\<close> returns for it, which
  is its key when it has neither a \<open>file_id\<close> nor a \<open>temp_file_id\<close>.
\<close>

definition initialKey :: "ExtendedFile \<Rightarrow> string \<Rightarrow> string" where
  "initialKey f uuid =
     (if truthy (file_id f) then the (file_id f)
      else if truthy (temp_file_id f) then the (temp_file_id f)
      else uuid)"

definition initialState :: "(ExtendedFile \<times> string) list option \<Rightarrow> hook_state" where
  "initialState initialFiles =
     \<lparr>files = (case initialFiles of
                 None \<Rightarrow> []
               | Some fs \<Rightarrow>
                   foldl (\<lambda>filesMap (f, uuid). map_set (Some (initialKey f uuid)) f filesMap) [] fs),
      filesLoading = False,
      abortControllerRef = None,
      toasts = [], uploads = [], loading = [], revoked = [], aborted = []\<rparr>"

definition promptFiles :: "hook_state \<Rightarrow> ExtendedFile list" where
  "promptFiles s = map_values (files s)"

subsection \<open>The upload callbacks: onSuccess and onError\<close>

definition updatedFile :: "TFile \<Rightarrow> ExtendedFile \<Rightarrow> ExtendedFile" where
  "updatedFile data f =
     f\<lparr>file_id := Some (tf_file_id data),
       filepath := Some (tf_filepath data),
       progress := 1,
       attached := Some True,
       preview := (if truthy (preview f) then preview f
                   else if startsWith (type' f) ''image/'' then Some (tf_filepath data)
                   else None)\<rparr>"

text \<open>
  The loop over \<open>newFiles.entries()\<close>: the first entry whose \<open>temp_file_id\<close> is the
  response's is replaced under its own key, and the loop ends there.
\<close>

fun mergeUploaded ::
  "TFile \<Rightarrow> ('k \<times> ExtendedFile) list \<Rightarrow> ('k \<times> ExtendedFile) list
     \<Rightarrow> ('k \<times> ExtendedFile) list" where
  "mergeUploaded data [] newFiles = newFiles"
| "mergeUploaded data ((key, f) # entries) newFiles =
     (if temp_file_id f = tf_temp_file_id data
      then map_set key (updatedFile data f) newFiles
      else mergeUploaded data entries newFiles)"

definition onSuccess :: "TFile \<Rightarrow> hook_state \<Rightarrow> hook_state" where
  "onSuccess data s =
     s\<lparr>files := mergeUploaded data (files s) (files s),
       filesLoading := False,
       toasts := toasts s @ [\<lparr>message = ''File uploaded successfully'', status = ''success''\<rparr>]\<rparr>"

definition onError :: "exn \<Rightarrow> hook_state \<Rightarrow> hook_state" where
  "onError err s =
     s\<lparr>filesLoading := False,
       toasts := toasts s @ [\<lparr>message = ''Failed to upload file'', status = ''error''\<rparr>]\<rparr>"

subsection \<open>Selecting files: handleFileChange and loadImage\<close>

text \<open>
  \<open>loadImage\<close> creates the image and leaves: its \<open>onload\<close> runs later, with the record
  that \<open>loadImage\<close> was given and the dimensions the browser found.
\<close>

definition loadImage :: "ExtendedFile \<Rightarrow> string \<Rightarrow> hook_state \<Rightarrow> hook_state" where
  "loadImage extendedFile preview_url s = s\<lparr>loading := loading s @ [(extendedFile, preview_url)]\<rparr>"

text \<open>\<open>FormData.append\<close> turns a value that is not a blob into a string.\<close>

definition stringOf :: "string option \<Rightarrow> string" where
  "stringOf v = (case v of None \<Rightarrow> ''undefined'' | Some x \<Rightarrow> x)"

definition imageFormData :: "ExtendedFile \<Rightarrow> nat \<Rightarrow> nat \<Rightarrow> FormData" where
  "imageFormData extendedFile w h =
     \<lparr>fd_endpoint = EModelEndpoint_agents,
      fd_file = file' extendedFile,
      fd_file_id = stringOf (file_id extendedFile),
      fd_message_file = ''true'',
      fd_width = Some w,
      fd_height = Some h,
      fd_tool_resource =
        (if truthy (tool_resource extendedFile) then tool_resource extendedFile else None)\<rparr>"

text \<open>\<open>img.onload\<close> of the image at position \<open>i\<close> among those still loading.\<close>

definition onload :: "nat \<Rightarrow> nat \<Rightarrow> nat \<Rightarrow> hook_state \<Rightarrow> hook_state" where
  "onload i w h s =
     (if i < length (loading s) then
        let (extendedFile, preview_url) = loading s ! i;
            updated = extendedFile\<lparr>width := Some w, height := Some h, progress := 6 / 10\<rparr>
        in s\<lparr>files := map_set (file_id extendedFile) updated (files s),
             uploads := uploads s @ [imageFormData extendedFile w h],
             revoked := revoked s @ [preview_url],
             loading := take i (loading s) @ drop (Suc i) (loading s)\<rparr>
      else s)"

text \<open>
  One selected file, with what the browser gives for it: the value of \<open>v4()\<close> and the
  object URL that \<open>URL.createObjectURL\<close> returns when it is asked for one.
\<close>

record selection =
  sel_file :: File
  sel_uuid :: string
  sel_url :: string

definition newExtendedFile :: "string option \<Rightarrow> selection \<Rightarrow> ExtendedFile" where
  "newExtendedFile toolResource sel =
     \<lparr>file_id = Some (sel_uuid sel),
      temp_file_id = Some (sel_uuid sel),
      type' = Some (ftype (sel_file sel)),
      filename = Some (name (sel_file sel)),
      filepath = Some [],
      progress = 0,
      preview = Some (if prefix ''image/'' (ftype (sel_file sel)) then sel_url sel else []),
      size' = fsize (sel_file sel),
      width = None,
      height = None,
      attached = Some False,
      file' = Some (sel_file sel),
      tool_resource = toolResource,
      metadata = None,
      source = None\<rparr>"

definition fileFormData :: "string option \<Rightarrow> selection \<Rightarrow> FormData" where
  "fileFormData toolResource sel =
     \<lparr>fd_endpoint = EModelEndpoint_agents,
      fd_file = Some (sel_file sel),
      fd_file_id = sel_uuid sel,
      fd_message_file = ''true'',
      fd_width = None,
      fd_height = None,
      fd_tool_resource = (if truthy toolResource then toolResource else None)\<rparr>"

text \<open>The body of \<open>fileList.forEach\<close>.\<close>

definition selectFile :: "string option \<Rightarrow> hook_state \<Rightarrow> selection \<Rightarrow> hook_state" where
  "selectFile toolResource s sel =
     (let extendedFile = newExtendedFile toolResource sel;
          s1 = s\<lparr>files := map_set (Some (sel_uuid sel)) extendedFile (files s)\<rparr>
      in if prefix ''image/'' (ftype (sel_file sel)) \<and> truthy (preview extendedFile)
         then loadImage extendedFile (the (preview extendedFile)) s1
         else s1\<lparr>uploads := uploads s1 @ [fileFormData toolResource sel]\<rparr>)"

definition handleFileChange ::
  "selection list option \<Rightarrow> string option \<Rightarrow> hook_state \<Rightarrow> hook_state" where
  "handleFileChange target_files toolResource s =
     (case target_files of
        None \<Rightarrow> s
      | Some fileList \<Rightarrow> foldl (selectFile toolResource) (s\<lparr>filesLoading := True\<rparr>) fileList)"

subsection \<open>Removing a file: handleFileRemove\<close>

definition handleFileRemove :: "string \<Rightarrow> hook_state \<Rightarrow> hook_state" where
  "handleFileRemove fileId s = s\<lparr>files := map_delete (Some fileId) (files s)\<rparr>"

subsection \<open>The restoration: loadFromToolResources\<close>

text \<open>
  \<open>fileMap\<close> is a plain object, filled with \<open>map[file.file_id] = file\<close>.  The assignment
  creates or replaces an own property, except under the name \<open>__proto__\<close>, where it makes
  the file the prototype of the object.
\<close>

record fileMapObject =
  own :: "string \<Rightarrow> TFile option"
  proto :: "TFile option"

definition fileMap :: "TFile list \<Rightarrow> fileMapObject" where
  "fileMap fs =
     foldl (\<lambda>m f. if tf_file_id f \<noteq> []
                  then (if tf_file_id f = ''__proto__'' then m\<lparr>proto := Some f\<rparr>
                        else m\<lparr>own := (own m)(tf_file_id f \<mapsto> f)\<rparr>)
                  else m)
       \<lparr>own = Map.empty, proto = None\<rparr> fs"

text \<open>
  The own property \<open>k\<close> of a file object: \<open>None\<close> when the object has no such property,
  else whether its value is truthy.
\<close>

definition property :: "TFile \<Rightarrow> string \<Rightarrow> bool option" where
  "property f k =
     (if k = ''file_id'' then Some (tf_file_id f \<noteq> [])
      else if k = ''temp_file_id'' then map_option (\<lambda>x. x \<noteq> []) (tf_temp_file_id f)
      else if k = ''type'' then map_option (\<lambda>x. x \<noteq> []) (tf_type f)
      else if k = ''filename'' then Some (tf_filename f \<noteq> [])
      else if k = ''filepath'' then Some (tf_filepath f \<noteq> [])
      else if k = ''bytes'' then Some (tf_bytes f \<noteq> 0)
      else if k = ''width'' then map_option (\<lambda>n. n \<noteq> 0) (tf_width f)
      else if k = ''height'' then map_option (\<lambda>n. n \<noteq> 0) (tf_height f)
      else if k = ''metadata'' then map_option (\<lambda>x. True) (tf_metadata f)
      else if k = ''source'' then map_option (\<lambda>x. x \<noteq> []) (tf_source f)
      else None)"

text \<open>
  \<open>fileMap[fileId]\<close>, as far as the hook can tell the values apart: nothing or a falsy
  value (\<open>Absent\<close>); a file of \<open>useGetFiles\<close> (\<open>Found\<close>), which is an own property or, under
  \<open>__proto__\<close>, the file that was made the prototype; or another truthy value
  (\<open>Inherited\<close>): a method of \<open>Object.prototype\<close>, that prototype itself, or a property of
  the file that was made the prototype.  None of the properties the hook reads of a file
  is defined on such a value.
\<close>

datatype dbFile = Absent | Found TFile | Inherited

definition inherited :: "string \<Rightarrow> dbFile" where
  "inherited k = (if k \<in> set Object_prototype then Inherited else Absent)"

definition lookup :: "fileMapObject \<Rightarrow> string \<Rightarrow> dbFile" where
  "lookup m k =
     (case own m k of
        Some f \<Rightarrow> Found f
      | None \<Rightarrow>
          (case proto m of
             None \<Rightarrow> inherited k
           | Some p \<Rightarrow>
               if k = ''__proto__'' then Found p
               else (case property p k of
                       Some t \<Rightarrow> (if t then Inherited else Absent)
                     | None \<Rightarrow> inherited k)))"

definition placeholder :: "string \<Rightarrow> string \<Rightarrow> string \<Rightarrow> ExtendedFile" where
  "placeholder toolResource fileId src =
     \<lparr>file_id = Some fileId,
      temp_file_id = Some fileId,
      type' = Some ''application/octet-stream'',
      filename = Some (''File '' @ fileId),
      filepath = Some [],
      progress = 1,
      preview = Some [],
      size' = 0,
      width = None,
      height = None,
      attached = Some True,
      file' = None,
      tool_resource = Some toolResource,
      metadata = None,
      source = Some src\<rparr>"

definition fromDb :: "string \<Rightarrow> TFile \<Rightarrow> string option \<Rightarrow> string \<Rightarrow> ExtendedFile" where
  "fromDb toolResource dbFile previewUrl src =
     \<lparr>file_id = Some (tf_file_id dbFile),
      temp_file_id = Some (tf_file_id dbFile),
      type' = tf_type dbFile,
      filename = Some (tf_filename dbFile),
      filepath = Some (tf_filepath dbFile),
      progress = 1,
      preview = previewUrl,
      size' = (if tf_bytes dbFile = 0 then 0 else tf_bytes dbFile),
      width = tf_width dbFile,
      height = tf_height dbFile,
      attached = Some True,
      file' = None,
      tool_resource = Some toolResource,
      metadata = tf_metadata dbFile,
      source = Some src\<rparr>"

text \<open>
  The record of the branch \<open>if (dbFile)\<close> when \<open>dbFile\<close> is a truthy value that is not a
  file: every property read of it is \<open>undefined\<close>, and \<open>undefined || 0\<close> is \<open>0\<close>.
\<close>

definition fromInherited :: "string \<Rightarrow> string \<Rightarrow> ExtendedFile" where
  "fromInherited toolResource src =
     \<lparr>file_id = None,
      temp_file_id = None,
      type' = None,
      filename = None,
      filepath = None,
      progress = 1,
      preview = None,
      size' = 0,
      width = None,
      height = None,
      attached = Some True,
      file' = None,
      tool_resource = Some toolResource,
      metadata = None,
      source = Some src\<rparr>"

text \<open>
  The body of the inner loop up to \<open>filesMap.set\<close>: the record for one identifier of one
  category.  The \<open>await\<close> of the blob URL would pass a rejection on.
\<close>

definition loadFile :: "env \<Rightarrow> string \<Rightarrow> string \<Rightarrow> exn + ExtendedFile" where
  "loadFile e toolResource fileId =
     (let dbFile = lookup (fileMap (allFiles e)) fileId;
          src = (if toolResource = EToolResources_file_search then FileSources_vectordb
                 else (case dbFile of
                         Found d \<Rightarrow> (case tf_source d of None \<Rightarrow> FileSources_local | Some x \<Rightarrow> x)
                       | _ \<Rightarrow> FileSources_local))
      in case dbFile of
           Absent \<Rightarrow> Inr (placeholder toolResource fileId src)
         | Inherited \<Rightarrow> Inr (fromInherited toolResource src)
         | Found d \<Rightarrow>
             if startsWith (tf_type d) ''image/'' then
               (case createAuthenticatedBlobUrl e (tf_file_id d) of
                  Inl err \<Rightarrow> Inl err
                | Inr url \<Rightarrow>
                    Inr (fromDb toolResource d
                           (if truthy url then url else Some (tf_filepath d)) src))
             else Inr (fromDb toolResource d None src))"

fun loadFileIds ::
  "env \<Rightarrow> string \<Rightarrow> string list \<Rightarrow> (string option \<times> ExtendedFile) list
     \<Rightarrow> exn + (string option \<times> ExtendedFile) list" where
  "loadFileIds e toolResource [] filesMap = Inr filesMap"
| "loadFileIds e toolResource (fileId # ids) filesMap =
     (case loadFile e toolResource fileId of
        Inl err \<Rightarrow> Inl err
      | Inr f \<Rightarrow> loadFileIds e toolResource ids (map_set (Some fileId) f filesMap))"

text \<open>The outer loop, over \<open>Object.entries(toolResources)\<close>.\<close>

fun loadEntries ::
  "env \<Rightarrow> AgentToolResources \<Rightarrow> (string option \<times> ExtendedFile) list
     \<Rightarrow> exn + (string option \<times> ExtendedFile) list" where
  "loadEntries e [] filesMap = Inr filesMap"
| "loadEntries e ((toolResource, resource) # entries) filesMap =
     (case file_ids resource of
        None \<Rightarrow> loadEntries e entries filesMap
      | Some ids \<Rightarrow>
          (case loadFileIds e toolResource ids filesMap of
             Inl err \<Rightarrow> Inl err
           | Inr filesMap' \<Rightarrow> loadEntries e entries filesMap'))"

definition loadFromToolResources ::
  "env \<Rightarrow> AgentToolResources option \<Rightarrow> hook_state \<Rightarrow> exn + hook_state" where
  "loadFromToolResources e toolResources s =
     (case toolResources of
        None \<Rightarrow> Inr (s\<lparr>files := []\<rparr>)
      | Some tr \<Rightarrow>
          (case loadEntries e (Object_entries tr) [] of
             Inl err \<Rightarrow> Inl err
           | Inr filesMap \<Rightarrow> Inr (s\<lparr>files := filesMap\<rparr>)))"

subsection \<open>The abort handle: abortUpload\<close>

definition abortUpload :: "hook_state \<Rightarrow> hook_state" where
  "abortUpload s =
     (case abortControllerRef s of
        None \<Rightarrow> s
      | Some controller \<Rightarrow>
          s\<lparr>aborted := aborted s @ [(controller, ''User aborted upload'')],
            abortControllerRef := None\<rparr>)"

subsection \<open>The hook as a transition system\<close>

text \<open>
  What can happen to the hook: one of the functions it returns is called, an image
  finishes loading, or the upload service answers.  A restoration that rejected would
  leave the state as it is.
\<close>

datatype event =
    HandleFileChange "selection list option" "string option"
  | Onload nat nat nat
  | UploadSuccess TFile
  | UploadError exn
  | HandleFileRemove string
  | LoadFromToolResources "AgentToolResources option"
  | AbortUpload

fun step :: "env \<Rightarrow> hook_state \<Rightarrow> event \<Rightarrow> hook_state" where
  "step e s (HandleFileChange target_files toolResource) = handleFileChange target_files toolResource s"
| "step e s (Onload i w h) = onload i w h s"
| "step e s (UploadSuccess data) = onSuccess data s"
| "step e s (UploadError err) = onError err s"
| "step e s (HandleFileRemove fileId) = handleFileRemove fileId s"
| "step e s (LoadFromToolResources toolResources) =
     (case loadFromToolResources e toolResources s of Inl err \<Rightarrow> s | Inr s' \<Rightarrow> s')"
| "step e s AbortUpload = abortUpload s"

subsection \<open>Runs of the hook and what its surroundings keep to\<close>

definition run :: "env \<Rightarrow> hook_state \<Rightarrow> event list \<Rightarrow> hook_state" where
  "run e s evs = foldl (step e) s evs"

text \<open>
  \<open>allowed G e s evs\<close>: every event of \<open>evs\<close> satisfies \<open>G\<close> in the state in which it
  happens, when the events happen one after the other from \<open>s\<close>.
\<close>

fun allowed :: "(hook_state \<Rightarrow> event \<Rightarrow> bool) \<Rightarrow> env \<Rightarrow> hook_state \<Rightarrow> event list \<Rightarrow> bool" where
  "allowed G e s [] = True"
| "allowed G e s (ev # evs) = (G s ev \<and> allowed G e (step e s ev) evs)"

definition keys :: "hook_state \<Rightarrow> string option set" where
  "keys s = fst ` set (files s)"

definition loading_ids :: "hook_state \<Rightarrow> string option set" where
  "loading_ids s = (\<lambda>(extendedFile, preview_url). file_id extendedFile) ` set (loading s)"

definition submitted_ids :: "hook_state \<Rightarrow> string set" where
  "submitted_ids s = fd_file_id ` set (uploads s)"

text \<open>
  The identifiers of a persisted map, each with its category, in the order in which the
  restoration visits them.
\<close>

definition idPairs :: "AgentToolResources \<Rightarrow> (string \<times> string) list" where
  "idPairs tr =
     concat (map (\<lambda>(c, r). case file_ids r of None \<Rightarrow> [] | Some ids \<Rightarrow> map (Pair c) ids)
               (Object_entries tr))"

text \<open>
  The order of things in the pipeline, which the hook relies on and does not check:
  \<open>v4()\<close> returns an identifier that is not in use; the service acknowledges only an
  upload that was submitted, under the identifier it was submitted with; and a persisted
  map does not name the provisional identifier of an image that is still loading.
\<close>

fun causal :: "hook_state \<Rightarrow> event \<Rightarrow> bool" where
  "causal s (HandleFileChange target_files toolResource) =
     (case target_files of
        None \<Rightarrow> True
      | Some fileList \<Rightarrow>
          distinct (map sel_uuid fileList)
          \<and> (\<forall>sel\<in>set fileList.
                Some (sel_uuid sel) \<notin> keys s \<union> loading_ids s \<and> sel_uuid sel \<notin> submitted_ids s))"
| "causal s (UploadSuccess data) = (\<exists>t\<in>submitted_ids s. tf_temp_file_id data = Some t)"
| "causal s (LoadFromToolResources toolResources) =
     (case toolResources of
        None \<Rightarrow> True
      | Some tr \<Rightarrow> (\<forall>(c, fileId)\<in>set (idPairs tr). Some fileId \<notin> loading_ids s))"
| "causal s ev = True"


subsection \<open>Notions of the statements and of their proofs\<close>

text \<open>The identifier-to-category assignments of a registry.\<close>

definition assignments :: "('k \<times> ExtendedFile) list \<Rightarrow> (string option \<times> string) set" where
  "assignments m = (\<lambda>f. (file_id f, toolResourceOf f)) ` set (map_values m)"

text \<open>The record \<open>loadFile\<close> yields, and the registry after a list of \<open>filesMap.set\<close>.\<close>

definition theFile :: "env \<Rightarrow> string \<Rightarrow> string \<Rightarrow> ExtendedFile" where
  "theFile e toolResource fileId = projr (loadFile e toolResource fileId)"

definition setAll ::
  "env \<Rightarrow> (string option \<times> ExtendedFile) list \<Rightarrow> (string \<times> string) list
     \<Rightarrow> (string option \<times> ExtendedFile) list" where
  "setAll e m ps = foldl (\<lambda>m (c, i). map_set (Some i) (theFile e c i) m) m ps"

text \<open>The \<open>file_ids\<close> an object owns under a category.\<close>

definition ids_of :: "AgentToolResources \<Rightarrow> string \<Rightarrow> string list" where
  "ids_of tr c = (case map_of tr c of None \<Rightarrow> []
                  | Some r \<Rightarrow> (case file_ids r of None \<Rightarrow> [] | Some ids \<Rightarrow> ids))"

text \<open>Every category of a projection holds a list of identifiers that is not empty.\<close>

definition filled :: "AgentToolResources \<Rightarrow> bool" where
  "filled tr = (\<forall>c r. map_of tr c = Some r \<longrightarrow> file_ids r \<noteq> None \<and> ids_of tr c \<noteq> [])"

text \<open>
  What the pipeline keeps true of the registry: no progress is beyond 1; the record under
  the key of an image that is still loading is at most at 0.6 and has that key as its
  \<open>temp_file_id\<close>; the images that are loading have different identifiers, none of which
  has been submitted; and the keys are different, as they are in a \<open>Map\<close>.
\<close>

definition pipeline_inv :: "hook_state \<Rightarrow> bool" where
  "pipeline_inv s =
     ((\<forall>k f. map_of (files s) k = Some f \<longrightarrow> progress f \<le> 1)
      \<and> (\<forall>x\<in>loading_ids s. x \<noteq> None \<and> (\<forall>f.
            map_of (files s) x = Some f \<longrightarrow> progress f \<le> 6 / 10 \<and> temp_file_id f = x))
      \<and> distinct (map (\<lambda>(extendedFile, preview_url). file_id extendedFile) (loading s))
      \<and> (\<forall>x\<in>loading_ids s. stringOf x \<notin> submitted_ids s)
      \<and> distinct (map fst (files s)))"


subsection \<open>Concrete scenarios\<close>

text \<open>
  A text file and a PNG as the file input hands them over, a session whose network is
  down, and the states after selecting the one or the other in a fresh hook.
\<close>

definition text_file :: selection where
  "text_file =
     \<lparr>sel_file = \<lparr>name = ''notes.txt'', ftype = ''text/plain'', fsize = 12\<rparr>,
      sel_uuid = ''u1'', sel_url = ''blob:u1''\<rparr>"

definition png_file :: selection where
  "png_file =
     \<lparr>sel_file = \<lparr>name = ''logo.png'', ftype = ''image/png'', fsize = 10240\<rparr>,
      sel_uuid = ''u2'', sel_url = ''blob:u2''\<rparr>"

definition offline :: env where
  "offline =
     \<lparr>user = Some \<lparr>user_id = ''alice''\<rparr>,
      token = Some ''t0'',
      fetch = (\<lambda>url headers. Inl (Thrown ''Failed to fetch'')),
      createObjectURL = (\<lambda>blob. ''blob:'' @ blob),
      allFiles = []\<rparr>"

definition online :: env where
  "online =
     \<lparr>user = Some \<lparr>user_id = ''alice''\<rparr>,
      token = Some ''t0'',
      fetch = (\<lambda>url headers. Inr \<lparr>r_status = 200, r_statusText = ''OK'', r_blob = Inr ''bytes''\<rparr>),
      createObjectURL = (\<lambda>blob. ''blob:'' @ blob),
      allFiles = []\<rparr>"

definition text_selected :: hook_state where
  "text_selected = handleFileChange (Some [text_file]) None (initialState None)"

definition png_selected :: hook_state where
  "png_selected = handleFileChange (Some [png_file]) None (initialState None)"

definition uploaded :: TFile where
  "uploaded =
     \<lparr>tf_file_id = ''f1'', tf_temp_file_id = Some ''u1'', tf_type = Some ''text/plain'',
      tf_filename = ''notes.txt'', tf_filepath = ''/uploads/alice/f1'', tf_bytes = 12,
      tf_width = None, tf_height = None, tf_metadata = None, tf_source = Some ''local''\<rparr>"

text \<open>
  Registries of other shapes; the hook hands out \<open>setFiles\<close>, so its owner can make any.
  A record whose progress is 2; two records that share the identifier \<open>a\<close> under
  different categories, with a session that knows the file \<open>a\<close>; a text file selected
  under the category \<open>constructor\<close>; and a record without \<open>file_id\<close>.
\<close>

definition record_a :: "string \<Rightarrow> rat \<Rightarrow> ExtendedFile" where
  "record_a toolResource p =
     \<lparr>file_id = Some ''a'', temp_file_id = Some ''a'', type' = Some ''text/plain'',
      filename = Some ''a.txt'', filepath = Some ''/uploads/alice/a'', progress = p,
      preview = None, size' = 1, width = None, height = None, attached = Some True,
      file' = None, tool_resource = Some toolResource, metadata = None, source = None\<rparr>"


definition twice :: hook_state where
  "twice = (initialState None)
     \<lparr>files := [(Some ''k1'', record_a ''ocr'' 1), (Some ''k2'', record_a ''file_search'' 1)]\<rparr>"

definition file_a :: TFile where
  "file_a =
     \<lparr>tf_file_id = ''a'', tf_temp_file_id = None, tf_type = Some ''text/plain'',
      tf_filename = ''a.txt'', tf_filepath = ''/uploads/alice/a'', tf_bytes = 1,
      tf_width = None, tf_height = None, tf_metadata = None, tf_source = Some ''local''\<rparr>"

definition knows_a :: env where
  "knows_a = online\<lparr>allFiles := [file_a]\<rparr>"

definition constructor_selected :: hook_state where
  "constructor_selected =
     handleFileChange (Some [text_file]) (Some ''constructor'') (initialState None)"


section \<open>Properties\<close>

subsection \<open>The Map operations\<close>

lemma map_of_map_set: "map_of (map_set k v m) = (map_of m)(k \<mapsto> v)"
  by (induction m) (auto simp: fun_eq_iff)

lemma map_fst_map_set_present: "k \<in> fst ` set m \<Longrightarrow> map fst (map_set k v m) = map fst m"
  by (induction m) force+

lemma find_Some_mem: "find P xs = Some x \<Longrightarrow> x \<in> set xs \<and> P x"
  by (induction xs) (auto split: if_splits)

subsection \<open>Readiness and statistics\<close>

lemma uploading_foldl:
  "uploading (foldl countFile st fs) = uploading st + length (filter (\<lambda>f. progress f < 1) fs)"
  by (induction fs arbitrary: st) (simp_all add: countFile_def)

lemma uploading_fileStats:
  "uploading (fileStats fs) = length (filter (\<lambda>f. progress f < 1) fs)"
  by (simp add: fileStats_def uploading_foldl)


lemma promptFiles_uploaded:
  "promptFiles (onSuccess uploaded text_selected)
     = [updatedFile uploaded (newExtendedFile None text_file)]"
  by (simp add: promptFiles_def map_values_def onSuccess_def text_selected_def
        handleFileChange_def selectFile_def initialState_def newExtendedFile_def
        text_file_def uploaded_def)




subsection \<open>The upload callbacks\<close>

lemma mergeUploaded_find:
  "mergeUploaded data es m =
     (case find (\<lambda>(k, f). temp_file_id f = tf_temp_file_id data) es of
        None \<Rightarrow> m
      | Some (key, f) \<Rightarrow> map_set key (updatedFile data f) m)"
  by (induction es) (auto split: option.splits)

text \<open>
  Claim C4.  When the service acknowledges an upload, the first registry record whose
  \<open>temp_file_id\<close> is the acknowledgment's is replaced, under its own key, by itself with
  the authoritative \<open>file_id\<close>, the final \<open>filepath\<close>, \<open>progress\<close> 1 and \<open>attached\<close> set; its
  \<open>preview\<close> stays when it has one, and is otherwise the reported path for an image type
  and nothing for any other type.  Every other key keeps its record and the keys keep
  their order.  When no record has that \<open>temp_file_id\<close>, the registry is as it was.
\<close>

theorem onSuccess_merges_first_match:
  "(\<forall>key f. find (\<lambda>(k, f). temp_file_id f = tf_temp_file_id data) (files s) = Some (key, f) \<longrightarrow>
      map_of (files (onSuccess data s)) key =
        Some (f\<lparr>file_id := Some (tf_file_id data), filepath := Some (tf_filepath data),
                 progress := 1,
                 attached := Some True,
                 preview := (if truthy (preview f) then preview f
                             else if startsWith (type' f) ''image/'' then Some (tf_filepath data)
                             else None)\<rparr>)
      \<and> (\<forall>k. k \<noteq> key \<longrightarrow> map_of (files (onSuccess data s)) k = map_of (files s) k)
      \<and> map fst (files (onSuccess data s)) = map fst (files s))
   \<and> ((\<forall>(k, f)\<in>set (files s). temp_file_id f \<noteq> tf_temp_file_id data) \<longrightarrow>
        files (onSuccess data s) = files s)"
proof (intro conjI allI impI)
  fix key f
  assume found: "find (\<lambda>(k, f). temp_file_id f = tf_temp_file_id data) (files s) = Some (key, f)"
  then have fs: "files (onSuccess data s) = map_set key (updatedFile data f) (files s)"
    by (simp add: onSuccess_def mergeUploaded_find)
  from found have mem: "(key, f) \<in> set (files s)"
    by (auto dest: find_Some_mem)
  show "map_of (files (onSuccess data s)) key =
        Some (f\<lparr>file_id := Some (tf_file_id data), filepath := Some (tf_filepath data),
                 progress := 1,
                 attached := Some True,
                 preview := (if truthy (preview f) then preview f
                             else if startsWith (type' f) ''image/'' then Some (tf_filepath data)
                             else None)\<rparr>)"
    by (simp add: fs map_of_map_set updatedFile_def)
  show "map fst (files (onSuccess data s)) = map fst (files s)"
  proof -
    from mem have "key \<in> fst ` set (files s)" by force
    then show ?thesis by (simp add: fs map_fst_map_set_present)
  qed
  fix k assume "k \<noteq> key"
  then show "map_of (files (onSuccess data s)) k = map_of (files s) k"
    by (simp add: fs map_of_map_set)
next
  assume none: "\<forall>(k, f)\<in>set (files s). temp_file_id f \<noteq> tf_temp_file_id data"
  have "find (\<lambda>(k, f). temp_file_id f = tf_temp_file_id data) (files s) = None"
    using none by (auto simp: find_None_iff)
  then show "files (onSuccess data s) = files s"
    by (simp add: onSuccess_def mergeUploaded_find)
qed

lemma files_text_selected:
  "files text_selected = [(Some ''u1'', newExtendedFile None text_file)]"
  by (simp add: text_selected_def handleFileChange_def selectFile_def initialState_def
        newExtendedFile_def text_file_def)

lemma files_png_selected:
  "files png_selected = [(Some ''u2'', newExtendedFile None png_file)]"
  by (simp add: png_selected_def handleFileChange_def selectFile_def initialState_def
        newExtendedFile_def png_file_def loadImage_def truthy_def Let_def)

theorem onSuccess_merges_first_match_witness:
  "find (\<lambda>(k, f). temp_file_id f = tf_temp_file_id uploaded) (files text_selected)
     = Some (Some ''u1'', newExtendedFile None text_file)
   \<and> map_of (files (onSuccess uploaded text_selected)) (Some ''u1'')
       = Some ((newExtendedFile None text_file)
                 \<lparr>file_id := Some ''f1'', filepath := Some ''/uploads/alice/f1'', progress := 1,
                  attached := Some True, preview := None\<rparr>)
   \<and> list_all (\<lambda>(k, f). temp_file_id f \<noteq> tf_temp_file_id uploaded) (files png_selected)
   \<and> files (onSuccess uploaded png_selected) = files png_selected"
proof -
  have found: "find (\<lambda>(k, f). temp_file_id f = tf_temp_file_id uploaded) (files text_selected)
                 = Some (Some ''u1'', newExtendedFile None text_file)"
    by (simp add: files_text_selected newExtendedFile_def text_file_def uploaded_def)
  have none: "\<forall>(k, f)\<in>set (files png_selected). temp_file_id f \<noteq> tf_temp_file_id uploaded"
    by (simp add: files_png_selected newExtendedFile_def png_file_def uploaded_def)
  have shape: "\<not> truthy (preview (newExtendedFile None text_file))
               \<and> \<not> startsWith (type' (newExtendedFile None text_file)) ''image/''"
    by (simp add: newExtendedFile_def text_file_def truthy_def startsWith_def)
  show ?thesis
    using found none shape
      onSuccess_merges_first_match [of uploaded text_selected]
      onSuccess_merges_first_match [of uploaded png_selected]
    by (simp add: uploaded_def list_all_iff)
qed

text \<open>
  Claim C5.  When the upload fails, the registry is what it was, so no progress has moved and
  no record has gone; nothing is submitted again; and one error toast is shown.
\<close>

theorem onError_leaves_registry:
  "files (onError err s) = files s
   \<and> uploads (onError err s) = uploads s
   \<and> loading (onError err s) = loading s
   \<and> toasts (onError err s)
       = toasts s @ [\<lparr>message = ''Failed to upload file'', status = ''error''\<rparr>]"
  by (simp add: onError_def)

subsection \<open>The authenticated blob fetcher\<close>

lemma createAuthenticatedBlobUrl_Inr: "\<exists>r. createAuthenticatedBlobUrl e fileId = Inr r"
  by (auto simp: createAuthenticatedBlobUrl_def split: option.splits sum.splits)

text \<open>
  Claim C6.  \<open>createAuthenticatedBlobUrl\<close> never throws.  It returns an object URL exactly when
  the session has a user id and a token, the request resolves to a response with a 2xx
  status and the body can be read; the URL is then the one made from that body.  Without
  a user id or a token, when the request is rejected, and on a response outside 2xx, it
  returns \<open>null\<close>.
\<close>

theorem createAuthenticatedBlobUrl_total:
  "(\<forall>err. createAuthenticatedBlobUrl e fileId \<noteq> Inl err)
   \<and> (createAuthenticatedBlobUrl e fileId = Inr (Some url) \<longleftrightarrow>
        (\<exists>u tok response blob.
            user e = Some u \<and> user_id u \<noteq> [] \<and> token e = Some tok \<and> tok \<noteq> []
          \<and> fetch e (''/api/files/download/'' @ user_id u @ ''/'' @ fileId)
                     [(''Authorization'', ''Bearer '' @ tok)] = Inr response
          \<and> 200 \<le> r_status response \<and> r_status response \<le> 299
          \<and> r_blob response = Inr blob \<and> url = createObjectURL e blob))
   \<and> ((\<forall>u. user e = Some u \<longrightarrow> user_id u = []) \<or> (\<forall>tok. token e = Some tok \<longrightarrow> tok = []) \<longrightarrow>
        createAuthenticatedBlobUrl e fileId = Inr None)
   \<and> (\<forall>u tok. user e = Some u \<and> token e = Some tok \<longrightarrow>
        (\<forall>err. fetch e (''/api/files/download/'' @ user_id u @ ''/'' @ fileId)
                    [(''Authorization'', ''Bearer '' @ tok)] = Inl err \<longrightarrow>
               createAuthenticatedBlobUrl e fileId = Inr None)
      \<and> (\<forall>response. fetch e (''/api/files/download/'' @ user_id u @ ''/'' @ fileId)
                    [(''Authorization'', ''Bearer '' @ tok)] = Inr response
               \<and> \<not> (200 \<le> r_status response \<and> r_status response \<le> 299) \<longrightarrow>
               createAuthenticatedBlobUrl e fileId = Inr None))"
proof (intro conjI)
  show "\<forall>err. createAuthenticatedBlobUrl e fileId \<noteq> Inl err"
    using createAuthenticatedBlobUrl_Inr [of e fileId] by auto
  show "createAuthenticatedBlobUrl e fileId = Inr (Some url) \<longleftrightarrow>
        (\<exists>u tok response blob.
            user e = Some u \<and> user_id u \<noteq> [] \<and> token e = Some tok \<and> tok \<noteq> []
          \<and> fetch e (''/api/files/download/'' @ user_id u @ ''/'' @ fileId)
                     [(''Authorization'', ''Bearer '' @ tok)] = Inr response
          \<and> 200 \<le> r_status response \<and> r_status response \<le> 299
          \<and> r_blob response = Inr blob \<and> url = createObjectURL e blob)"
    by (auto simp: createAuthenticatedBlobUrl_def fetchBlobUrl_def ok_def truthy_def
             split: option.splits sum.splits if_splits)
  show "(\<forall>u. user e = Some u \<longrightarrow> user_id u = []) \<or> (\<forall>tok. token e = Some tok \<longrightarrow> tok = []) \<longrightarrow>
        createAuthenticatedBlobUrl e fileId = Inr None"
    by (auto simp: createAuthenticatedBlobUrl_def truthy_def split: option.splits)
  show "\<forall>u tok. user e = Some u \<and> token e = Some tok \<longrightarrow>
        (\<forall>err. fetch e (''/api/files/download/'' @ user_id u @ ''/'' @ fileId)
                    [(''Authorization'', ''Bearer '' @ tok)] = Inl err \<longrightarrow>
               createAuthenticatedBlobUrl e fileId = Inr None)
      \<and> (\<forall>response. fetch e (''/api/files/download/'' @ user_id u @ ''/'' @ fileId)
                    [(''Authorization'', ''Bearer '' @ tok)] = Inr response
               \<and> \<not> (200 \<le> r_status response \<and> r_status response \<le> 299) \<longrightarrow>
               createAuthenticatedBlobUrl e fileId = Inr None)"
    by (auto simp: createAuthenticatedBlobUrl_def fetchBlobUrl_def ok_def truthy_def
             split: option.splits sum.splits)
qed

theorem createAuthenticatedBlobUrl_total_witness:
  "createAuthenticatedBlobUrl online ''f1'' = Inr (Some ''blob:bytes'')
   \<and> createAuthenticatedBlobUrl offline ''f1'' = Inr None
   \<and> createAuthenticatedBlobUrl (online\<lparr>token := None\<rparr>) ''f1'' = Inr None"
proof -
  have on: "user online = Some \<lparr>user_id = ''alice''\<rparr> \<and> token online = Some ''t0''
            \<and> fetch online (''/api/files/download/'' @ ''alice'' @ ''/'' @ ''f1'')
                 [(''Authorization'', ''Bearer '' @ ''t0'')]
                = Inr \<lparr>r_status = 200, r_statusText = ''OK'', r_blob = Inr ''bytes''\<rparr>
            \<and> createObjectURL online ''bytes'' = ''blob:bytes''"
    by (simp add: online_def)
  have off: "user offline = Some \<lparr>user_id = ''alice''\<rparr> \<and> token offline = Some ''t0''
            \<and> fetch offline (''/api/files/download/'' @ ''alice'' @ ''/'' @ ''f1'')
                 [(''Authorization'', ''Bearer '' @ ''t0'')] = Inl (Thrown ''Failed to fetch'')"
    by (simp add: offline_def)
  have no_token: "\<forall>tok. token (online\<lparr>token := None\<rparr>) = Some tok \<longrightarrow> tok = []"
    by simp
  have a: "createAuthenticatedBlobUrl online ''f1'' = Inr (Some ''blob:bytes'')"
    using on createAuthenticatedBlobUrl_total [of online "''f1''" "''blob:bytes''"]
    by (auto simp del: append.simps)
  have b: "createAuthenticatedBlobUrl offline ''f1'' = Inr None"
    using off createAuthenticatedBlobUrl_total [of offline "''f1''" "''x''"]
    by (auto simp del: append.simps)
  have c: "createAuthenticatedBlobUrl (online\<lparr>token := None\<rparr>) ''f1'' = Inr None"
    using no_token createAuthenticatedBlobUrl_total [of "online\<lparr>token := None\<rparr>" "''f1''" "''x''"]
    by blast
  show ?thesis using a b c by simp
qed

subsection \<open>The restoration\<close>

lemma set_Object_entries: "set (Object_entries obj) = set obj"
  by (auto simp: Object_entries_def)

lemma loadFile_Found:
  assumes "lookup (fileMap (allFiles e)) i = Found d"
  shows "\<exists>p src. loadFile e c i = Inr (fromDb c d p src)"
proof -
  obtain r where "createAuthenticatedBlobUrl e (tf_file_id d) = Inr r"
    using createAuthenticatedBlobUrl_Inr by blast
  then show ?thesis using assms by (simp add: loadFile_def Let_def) blast
qed

lemma loadFile_Absent:
  "lookup (fileMap (allFiles e)) i = Absent \<Longrightarrow>
   loadFile e c i = Inr (placeholder c i
     (if c = EToolResources_file_search then FileSources_vectordb else FileSources_local))"
  by (simp add: loadFile_def)

lemma loadFile_Inherited:
  "lookup (fileMap (allFiles e)) i = Inherited \<Longrightarrow>
   loadFile e c i = Inr (fromInherited c
     (if c = EToolResources_file_search then FileSources_vectordb else FileSources_local))"
  by (simp add: loadFile_def)

lemma loadFile_Inr: "\<exists>f. loadFile e c i = Inr f"
proof (cases "lookup (fileMap (allFiles e)) i")
  case Absent
  then show ?thesis by (simp add: loadFile_Absent)
next
  case (Found d)
  then show ?thesis using loadFile_Found [of e i d c] by blast
next
  case Inherited
  then show ?thesis by (simp add: loadFile_Inherited)
qed

lemma loadFile_theFile: "loadFile e c i = Inr (theFile e c i)"
  using loadFile_Inr [of e c i] by (auto simp: theFile_def)

lemma loadFileIds_setAll: "loadFileIds e c ids m = Inr (setAll e m (map (Pair c) ids))"
  by (induction ids arbitrary: m) (simp_all add: loadFile_theFile setAll_def)

lemma setAll_append: "setAll e m (ps @ qs) = setAll e (setAll e m ps) qs"
  by (simp add: setAll_def)

lemma loadEntries_setAll:
  "loadEntries e es m =
     Inr (setAll e m
            (concat (map (\<lambda>(c, r). case file_ids r of None \<Rightarrow> [] | Some ids \<Rightarrow> map (Pair c) ids) es)))"
proof (induction es arbitrary: m)
  case Nil
  then show ?case by (simp add: setAll_def)
next
  case (Cons a es)
  obtain c r where a: "a = (c, r)" by (cases a)
  show ?case
    using Cons.IH
    by (cases "file_ids r") (simp_all add: a loadFileIds_setAll setAll_append)
qed

lemma loadFromToolResources_setAll:
  "loadFromToolResources e (Some tr) s = Inr (s\<lparr>files := setAll e [] (idPairs tr)\<rparr>)"
  by (simp add: loadFromToolResources_def loadEntries_setAll idPairs_def)

lemma map_of_setAll:
  "map_of (setAll e m ps) (Some i) =
     (case find (\<lambda>(c, j). j = i) (rev ps) of
        None \<Rightarrow> map_of m (Some i)
      | Some (c, j) \<Rightarrow> Some (theFile e c i))"
proof (induction ps rule: rev_induct)
  case Nil
  then show ?case by (simp add: setAll_def)
next
  case (snoc x ps)
  obtain c j where x: "x = (c, j)" by (cases x)
  show ?case
    using snoc.IH by (simp add: x setAll_append) (simp add: setAll_def map_of_map_set)
qed

text \<open>What the object holds: own properties by their name, the prototype under \<open>__proto__\<close>.\<close>

lemma fileMap_Nil: "fileMap [] = \<lparr>own = Map.empty, proto = None\<rparr>"
  by (simp add: fileMap_def)

lemma fileMap_snoc:
  "fileMap (fs @ [f]) =
     (if tf_file_id f \<noteq> []
      then (if tf_file_id f = ''__proto__'' then (fileMap fs)\<lparr>proto := Some f\<rparr>
            else (fileMap fs)\<lparr>own := (own (fileMap fs))(tf_file_id f \<mapsto> f)\<rparr>)
      else fileMap fs)"
  by (simp add: fileMap_def)

lemma fileMap_own: "own (fileMap fs) j = Some d \<Longrightarrow> tf_file_id d = j"
proof (induction fs arbitrary: j d rule: rev_induct)
  case Nil
  then show ?case by (simp add: fileMap_Nil)
next
  case (snoc f fs)
  then show ?case by (auto simp: fileMap_snoc split: if_splits)
qed

lemma fileMap_proto: "proto (fileMap fs) = Some p \<Longrightarrow> tf_file_id p = ''__proto__''"
proof (induction fs arbitrary: p rule: rev_induct)
  case Nil
  then show ?case by (simp add: fileMap_Nil)
next
  case (snoc f fs)
  then show ?case by (auto simp: fileMap_snoc split: if_splits)
qed

lemma lookup_Found: "lookup (fileMap fs) k = Found d \<Longrightarrow> tf_file_id d = k"
proof -
  assume a: "lookup (fileMap fs) k = Found d"
  show ?thesis
  proof (cases "own (fileMap fs) k")
    case (Some f)
    then show ?thesis using a fileMap_own [of fs k f] by (simp add: lookup_def)
  next
    case None
    show ?thesis
    proof (cases "proto (fileMap fs)")
      case noproto: None
      then show ?thesis using a None by (simp add: lookup_def inherited_def split: if_splits)
    next
      case (Some p)
      have "tf_file_id p = ''__proto__''" using Some by (rule fileMap_proto)
      then show ?thesis
        using a None Some
        by (simp add: lookup_def inherited_def split: if_splits option.splits)
    qed
  qed
qed

lemma theFile_always:
  "tool_resource (theFile e c i) = Some c \<and> progress (theFile e c i) = 1"
proof (cases "lookup (fileMap (allFiles e)) i")
  case Absent
  then show ?thesis by (simp add: theFile_def loadFile_Absent placeholder_def)
next
  case (Found d)
  then show ?thesis using loadFile_Found [of e i d c] by (auto simp: theFile_def fromDb_def)
next
  case Inherited
  then show ?thesis by (simp add: theFile_def loadFile_Inherited fromInherited_def)
qed

lemma theFile_identified:
  assumes "lookup (fileMap (allFiles e)) i \<noteq> Inherited"
  shows "file_id (theFile e c i) = Some i \<and> temp_file_id (theFile e c i) = Some i"
proof (cases "lookup (fileMap (allFiles e)) i")
  case Absent
  then show ?thesis by (simp add: theFile_def loadFile_Absent placeholder_def)
next
  case (Found d)
  then have "tf_file_id d = i" by (rule lookup_Found)
  then show ?thesis using loadFile_Found [OF Found, of c] by (auto simp: theFile_def fromDb_def)
next
  case Inherited
  then show ?thesis using assms by simp
qed

lemma theFile_placeholder:
  "lookup (fileMap (allFiles e)) i = Absent \<Longrightarrow>
   theFile e c i = placeholder c i
     (if c = EToolResources_file_search then FileSources_vectordb else FileSources_local)"
  by (simp add: theFile_def loadFile_Absent)

lemma find_rev_pairs:
  "(c, i) \<in> set ps \<Longrightarrow> \<exists>c'. find (\<lambda>(c, j). j = i) (rev ps) = Some (c', i) \<and> (c', i) \<in> set ps"
proof -
  assume "(c, i) \<in> set ps"
  then have "\<exists>x\<in>set (rev ps). (\<lambda>(c, j). j = i) x" by force
  then obtain x where "find (\<lambda>(c, j). j = i) (rev ps) = Some x"
    by (cases "find (\<lambda>(c, j). j = i) (rev ps)") (auto simp: find_None_iff)
  then show ?thesis using find_Some_mem [of "\<lambda>(c, j). j = i" "rev ps" x] by (cases x) auto
qed

lemma idPairs_mem:
  "(c, i) \<in> set (idPairs tr) \<longleftrightarrow> (\<exists>r ids. (c, r) \<in> set tr \<and> file_ids r = Some ids \<and> i \<in> set ids)"
  by (auto simp: idPairs_def set_Object_entries split: option.splits) force+

lemma restored_record:
  assumes "(c, i) \<in> set (idPairs tr)"
  shows "\<exists>c'. (c', i) \<in> set (idPairs tr)
           \<and> map_of (setAll e m (idPairs tr)) (Some i) = Some (theFile e c' i)"
proof -
  from find_rev_pairs [OF assms]
  obtain c' where f: "find (\<lambda>(c, j). j = i) (rev (idPairs tr)) = Some (c', i)"
    and m: "(c', i) \<in> set (idPairs tr)"
    by (elim exE conjE)
  have "map_of (setAll e m (idPairs tr)) (Some i) = Some (theFile e c' i)"
    by (simp add: map_of_setAll f)
  with m show ?thesis by blast
qed

text \<open>
  The restoration never fails, and an identifier that the object \<open>fileMap\<close> neither owns
  nor inherits gets the placeholder, under a category under which it was persisted.
\<close>

lemma loadFromToolResources_placeholder:
  "(\<exists>s'. loadFromToolResources e toolResources s = Inr s')
   \<and> (\<forall>tr c r ids fileId.
         toolResources = Some tr \<and> (c, r) \<in> set tr \<and> file_ids r = Some ids \<and> fileId \<in> set ids
         \<and> lookup (fileMap (allFiles e)) fileId = Absent \<longrightarrow>
         (\<exists>s' f c'. loadFromToolResources e toolResources s = Inr s'
            \<and> map_of (files s') (Some fileId) = Some f
            \<and> file_id f = Some fileId \<and> progress f = 1 \<and> filepath f = Some []
            \<and> filename f = Some (''File '' @ fileId)
            \<and> tool_resource f = Some c'
            \<and> (\<exists>r' ids'. (c', r') \<in> set tr \<and> file_ids r' = Some ids' \<and> fileId \<in> set ids')))"
proof (intro conjI allI impI)
  show "\<exists>s'. loadFromToolResources e toolResources s = Inr s'"
    by (cases toolResources) (simp_all add: loadFromToolResources_setAll, simp add: loadFromToolResources_def)
next
  fix tr c r ids fileId
  assume a: "toolResources = Some tr \<and> (c, r) \<in> set tr \<and> file_ids r = Some ids \<and> fileId \<in> set ids
         \<and> lookup (fileMap (allFiles e)) fileId = Absent"
  then have "(c, fileId) \<in> set (idPairs tr)" by (auto simp: idPairs_mem)
  from restored_record [OF this, of e "[]"]
  obtain c' where mem: "(c', fileId) \<in> set (idPairs tr)"
    and look: "map_of (setAll e [] (idPairs tr)) (Some fileId) = Some (theFile e c' fileId)"
    by (elim exE conjE)
  have res: "loadFromToolResources e toolResources s = Inr (s\<lparr>files := setAll e [] (idPairs tr)\<rparr>)"
    using a by (simp add: loadFromToolResources_setAll)
  have ph: "theFile e c' fileId = placeholder c' fileId
              (if c' = EToolResources_file_search then FileSources_vectordb else FileSources_local)"
    using a by (simp add: theFile_placeholder)
  let ?f = "placeholder c' fileId
              (if c' = EToolResources_file_search then FileSources_vectordb else FileSources_local)"
  let ?s = "s\<lparr>files := setAll e [] (idPairs tr)\<rparr>"
  have 1: "map_of (files ?s) (Some fileId) = Some ?f" using look ph by simp
  have 2: "file_id ?f = Some fileId \<and> progress ?f = 1 \<and> filepath ?f = Some []
          \<and> filename ?f = Some (''File '' @ fileId) \<and> tool_resource ?f = Some c'"
    by (simp add: placeholder_def)
  have 3: "\<exists>r' ids'. (c', r') \<in> set tr \<and> file_ids r' = Some ids' \<and> fileId \<in> set ids'"
    using mem by (simp only: idPairs_mem)
  from res 1 2 3
  show "\<exists>s' f c'. loadFromToolResources e toolResources s = Inr s'
            \<and> map_of (files s') (Some fileId) = Some f
            \<and> file_id f = Some fileId \<and> progress f = 1 \<and> filepath f = Some []
            \<and> filename f = Some (''File '' @ fileId)
            \<and> tool_resource f = Some c'
            \<and> (\<exists>r' ids'. (c', r') \<in> set tr \<and> file_ids r' = Some ids' \<and> fileId \<in> set ids')"
    by blast
qed

text \<open>The scenario of the specification: \<open>abc\<close> is restored as one placeholder.\<close>

lemma loadFromToolResources_abc:
  "lookup (fileMap (allFiles offline)) ''abc'' = Absent
   \<and> loadFromToolResources offline (Some [(''search'', \<lparr>file_ids = Some [''abc'']\<rparr>)])
        (initialState None) =
      Inr ((initialState None)\<lparr>files :=
        [(Some ''abc'',
          \<lparr>file_id = Some ''abc'', temp_file_id = Some ''abc'',
           type' = Some ''application/octet-stream'', filename = Some ''File abc'',
           filepath = Some [], progress = 1, preview = Some [], size' = 0,
           width = None, height = None, attached = Some True, file' = None,
           tool_resource = Some ''search'', metadata = None, source = Some ''local''\<rparr>)]\<rparr>)"
proof -
  have l: "lookup (fileMap (allFiles offline)) ''abc'' = Absent"
    by (simp add: offline_def fileMap_def lookup_def inherited_def Object_prototype_def)
  have p: "idPairs [(''search'', \<lparr>file_ids = Some [''abc'']\<rparr>)] = [(''search'', ''abc'')]"
    by (simp add: idPairs_def Object_entries_def arrayIndex_def)
  show ?thesis
    using l
    by (simp add: loadFromToolResources_setAll p setAll_def theFile_placeholder placeholder_def
          EToolResources_file_search_def FileSources_local_def)
qed

text \<open>
  Claim C7.  An identifier that the metadata lookup does not resolve is restored as a
  placeholder with progress 1, an empty path and a display name that contains the
  identifier.  The code does so only for an identifier that is not the name of a property
  every object inherits: in a session that knows no file at all, the persisted map
  \<open>{search: {file_ids: ["constructor"]}}\<close> is restored, without failing, as one record
  that has no \<open>file_id\<close>, no \<open>filename\<close> and no \<open>filepath\<close>, because
  \<open>fileMap["constructor"]\<close> is the function \<open>Object\<close> and the branch for a file found in
  the database is taken.
\<close>

theorem loadFromToolResources_inherited_name:
  "allFiles offline = []
   \<and> lookup (fileMap (allFiles offline)) ''constructor'' = Inherited
   \<and> loadFromToolResources offline (Some [(''search'', \<lparr>file_ids = Some [''constructor'']\<rparr>)])
        (initialState None) =
      Inr ((initialState None)\<lparr>files :=
        [(Some ''constructor'',
          \<lparr>file_id = None, temp_file_id = None, type' = None, filename = None,
           filepath = None, progress = 1, preview = None, size' = 0,
           width = None, height = None, attached = Some True, file' = None,
           tool_resource = Some ''search'', metadata = None, source = Some ''local''\<rparr>)]\<rparr>)"
proof -
  have l: "lookup (fileMap (allFiles offline)) ''constructor'' = Inherited"
    by (simp add: offline_def fileMap_def lookup_def inherited_def Object_prototype_def)
  have p: "idPairs [(''search'', \<lparr>file_ids = Some [''constructor'']\<rparr>)] = [(''search'', ''constructor'')]"
    by (simp add: idPairs_def Object_entries_def arrayIndex_def)
  have t: "theFile offline ''search'' ''constructor'' = fromInherited ''search'' ''local''"
    using l
    by (simp add: theFile_def loadFile_Inherited EToolResources_file_search_def
          FileSources_local_def)
  show ?thesis
    using l by (simp add: loadFromToolResources_setAll p setAll_def t fromInherited_def)
       (simp add: offline_def)
qed

subsection \<open>The projection, and the projection restored\<close>

lemma keys_map_set: "fst ` set (map_set k v m) = insert k (fst ` set m)"
  by (induction k v m rule: map_set.induct) (simp_all add: insert_commute)

lemma distinct_map_set: "distinct (map fst m) \<Longrightarrow> distinct (map fst (map_set k v m))"
  by (induction k v m rule: map_set.induct) (auto simp: keys_map_set)

lemma ids_of_map_set:
  "ids_of (map_set c r tr) c' =
     (if c' = c then (case file_ids r of None \<Rightarrow> [] | Some ids \<Rightarrow> ids) else ids_of tr c')"
  by (simp add: ids_of_def map_of_map_set)

text \<open>
  One round of the loop, for a record whose category is not the name of an inherited
  property: it returns, and the object it returns has the identifier under the category.
\<close>

lemma addToolResource_Inr:
  assumes fl: "filled tr"
      and ok: "truthy (file_id f) \<longrightarrow> toolResourceOf f \<notin> set Object_prototype"
  shows "\<exists>tr'. addToolResource tr f = Inr tr'
           \<and> filled tr'
           \<and> (distinct (map fst tr) \<longrightarrow> distinct (map fst tr'))
           \<and> (\<forall>c. ids_of tr' c =
                 (if truthy (file_id f) \<and> c = toolResourceOf f \<and> the (file_id f) \<notin> set (ids_of tr c)
                  then ids_of tr c @ [the (file_id f)] else ids_of tr c))
           \<and> fst ` set tr' = fst ` set tr \<union> (if truthy (file_id f) then {toolResourceOf f} else {})"
proof (cases "truthy (file_id f)")
  case False
  then show ?thesis using fl by (simp add: addToolResource_def)
next
  case True
  let ?c = "toolResourceOf f"
  let ?i = "the (file_id f)"
  have np: "?c \<notin> set Object_prototype" using ok True by simp
  show ?thesis
  proof (cases "map_of tr ?c")
    case None
    let ?tr1 = "map_set ?c \<lparr>file_ids = Some []\<rparr> tr"
    let ?tr' = "map_set ?c \<lparr>file_ids = Some [?i]\<rparr> ?tr1"
    have r: "addToolResource tr f = Inr ?tr'"
      using True None np by (simp add: addToolResource_def Let_def pushFileId_def map_of_map_set)
    have i0: "ids_of tr ?c = []" using None by (simp add: ids_of_def)
    have 1: "filled ?tr'"
      using fl unfolding filled_def
      by (auto simp: map_of_map_set ids_of_map_set ids_of_def split: if_splits option.splits)
    have 2: "distinct (map fst tr) \<longrightarrow> distinct (map fst ?tr')"
      by (simp add: distinct_map_set)
    have 3: "\<forall>c. ids_of ?tr' c =
                 (if truthy (file_id f) \<and> c = ?c \<and> ?i \<notin> set (ids_of tr c)
                  then ids_of tr c @ [?i] else ids_of tr c)"
      using True i0 by (simp add: ids_of_map_set)
    have 4: "fst ` set ?tr' = fst ` set tr \<union> (if truthy (file_id f) then {?c} else {})"
      using True by (simp add: keys_map_set)
    from r 1 2 3 4 show ?thesis by blast
  next
    case (Some r)
    from fl Some obtain ids where ids: "file_ids r = Some ids"
      unfolding filled_def by blast
    have io: "ids_of tr ?c = ids" using Some ids by (simp add: ids_of_def)
    have key: "?c \<in> fst ` set tr" using map_of_SomeD [OF Some] by force
    show ?thesis
    proof (cases "?i \<in> set ids")
      case yes: True
      have r: "addToolResource tr f = Inr tr"
        using True Some ids yes by (simp add: addToolResource_def Let_def pushFileId_def)
      have 4: "fst ` set tr = fst ` set tr \<union> (if truthy (file_id f) then {?c} else {})"
        using key by auto
      have 3: "\<forall>c. ids_of tr c =
                 (if truthy (file_id f) \<and> c = ?c \<and> ?i \<notin> set (ids_of tr c)
                  then ids_of tr c @ [?i] else ids_of tr c)"
        using yes io by auto
      from r fl 3 4 show ?thesis by blast
    next
      case no: False
      let ?tr' = "map_set ?c \<lparr>file_ids = Some (ids @ [?i])\<rparr> tr"
      have r: "addToolResource tr f = Inr ?tr'"
        using True Some ids no by (simp add: addToolResource_def Let_def pushFileId_def)
      have 1: "filled ?tr'"
        using fl unfolding filled_def
        by (auto simp: map_of_map_set ids_of_map_set ids_of_def split: if_splits option.splits)
      have 2: "distinct (map fst tr) \<longrightarrow> distinct (map fst ?tr')"
        by (simp add: distinct_map_set)
      have 3: "\<forall>c. ids_of ?tr' c =
                 (if truthy (file_id f) \<and> c = ?c \<and> ?i \<notin> set (ids_of tr c)
                  then ids_of tr c @ [?i] else ids_of tr c)"
        using True no io by (simp add: ids_of_map_set)
      have 4: "fst ` set ?tr' = fst ` set tr \<union> (if truthy (file_id f) then {?c} else {})"
        using True key by (auto simp: keys_map_set)
      from r 1 2 3 4 show ?thesis by blast
    qed
  qed
qed

text \<open>
  One round for a record whose category is the name of an inherited property, on an
  object that owns no such name: \<open>includes\<close> is called on \<open>undefined\<close>.
\<close>

lemma addToolResource_Inl:
  assumes "truthy (file_id f)" and "toolResourceOf f \<in> set Object_prototype"
      and "fst ` set tr \<inter> set Object_prototype = {}"
  shows "addToolResource tr f = Inl (Thrown ''TypeError'')"
proof -
  have "toolResourceOf f \<notin> fst ` set tr" using assms(2,3) by blast
  then have "map_of tr (toolResourceOf f) = None" by (simp add: map_of_eq_None_iff)
  then show ?thesis using assms(1,2) by (simp add: addToolResource_def Let_def pushFileId_def)
qed

lemma forEach_Inr:
  assumes "distinct (map fst tr)" and "filled tr" and "\<forall>c. distinct (ids_of tr c)"
      and "\<forall>f\<in>set fs. truthy (file_id f) \<longrightarrow> toolResourceOf f \<notin> set Object_prototype"
  shows "\<exists>tr'. forEach tr fs = Inr tr'
           \<and> distinct (map fst tr') \<and> filled tr'
           \<and> (\<forall>c. distinct (ids_of tr' c)
                 \<and> set (ids_of tr' c) = set (ids_of tr c)
                     \<union> {the (file_id f) | f. f \<in> set fs \<and> truthy (file_id f) \<and> toolResourceOf f = c})
           \<and> fst ` set tr' = fst ` set tr \<union> {toolResourceOf f | f. f \<in> set fs \<and> truthy (file_id f)}"
  using assms
proof (induction fs arbitrary: tr)
  case Nil
  then show ?case by simp
next
  case (Cons f fs)
  have ok: "truthy (file_id f) \<longrightarrow> toolResourceOf f \<notin> set Object_prototype"
    using Cons.prems(4) by simp
  from addToolResource_Inr [OF Cons.prems(2) ok]
  obtain tr1 where r: "addToolResource tr f = Inr tr1"
    and fl: "filled tr1"
    and d0: "distinct (map fst tr) \<longrightarrow> distinct (map fst tr1)"
    and io: "\<forall>c. ids_of tr1 c =
                 (if truthy (file_id f) \<and> c = toolResourceOf f \<and> the (file_id f) \<notin> set (ids_of tr c)
                  then ids_of tr c @ [the (file_id f)] else ids_of tr c)"
    and ks: "fst ` set tr1 = fst ` set tr \<union> (if truthy (file_id f) then {toolResourceOf f} else {})"
    by (elim exE conjE)
  have d: "distinct (map fst tr1)" using d0 Cons.prems(1) by simp
  have di: "\<forall>c. distinct (ids_of tr1 c)" using Cons.prems(3) io by auto
  have rest: "\<forall>f\<in>set fs. truthy (file_id f) \<longrightarrow> toolResourceOf f \<notin> set Object_prototype"
    using Cons.prems(4) by simp
  from Cons.IH [OF d fl di rest]
  obtain tr' where r': "forEach tr1 fs = Inr tr'"
    and d': "distinct (map fst tr')" and fl': "filled tr'"
    and io': "\<forall>c. distinct (ids_of tr' c)
                 \<and> set (ids_of tr' c) = set (ids_of tr1 c)
                     \<union> {the (file_id f) | f. f \<in> set fs \<and> truthy (file_id f) \<and> toolResourceOf f = c}"
    and ks': "fst ` set tr' = fst ` set tr1 \<union> {toolResourceOf f | f. f \<in> set fs \<and> truthy (file_id f)}"
    by (elim exE conjE)
  have s1: "set (ids_of tr1 c) = set (ids_of tr c)
              \<union> (if truthy (file_id f) \<and> toolResourceOf f = c then {the (file_id f)} else {})" for c
    using io by auto
  have A: "forEach tr (f # fs) = Inr tr'" using r r' by simp
  have B: "\<forall>c. distinct (ids_of tr' c)
                 \<and> set (ids_of tr' c) = set (ids_of tr c)
                     \<union> {the (file_id g) | g. g \<in> set (f # fs) \<and> truthy (file_id g) \<and> toolResourceOf g = c}"
    using io' by (auto simp: s1)
  have C: "fst ` set tr' = fst ` set tr \<union> {toolResourceOf g | g. g \<in> set (f # fs) \<and> truthy (file_id g)}"
    unfolding ks' ks by auto
  from A d' fl' B C show ?case by blast
qed

lemma forEach_Inl:
  assumes "filled tr" and "fst ` set tr \<inter> set Object_prototype = {}"
      and "\<exists>f\<in>set fs. truthy (file_id f) \<and> toolResourceOf f \<in> set Object_prototype"
  shows "forEach tr fs = Inl (Thrown ''TypeError'')"
  using assms
proof (induction fs arbitrary: tr)
  case Nil
  then show ?case by simp
next
  case (Cons f fs)
  show ?case
  proof (cases "truthy (file_id f) \<and> toolResourceOf f \<in> set Object_prototype")
    case True
    then show ?thesis using addToolResource_Inl [of f tr] Cons.prems(2) by simp
  next
    case False
    then have ok: "truthy (file_id f) \<longrightarrow> toolResourceOf f \<notin> set Object_prototype" by blast
    from addToolResource_Inr [OF Cons.prems(1) ok]
    obtain tr1 where r: "addToolResource tr f = Inr tr1"
      and fl: "filled tr1"
      and ks: "fst ` set tr1 = fst ` set tr \<union> (if truthy (file_id f) then {toolResourceOf f} else {})"
      by (elim exE conjE)
    have k1: "fst ` set tr1 \<inter> set Object_prototype = {}"
      using ks Cons.prems(2) ok by auto
    have ex: "\<exists>f\<in>set fs. truthy (file_id f) \<and> toolResourceOf f \<in> set Object_prototype"
      using Cons.prems(3) False by auto
    show ?thesis using Cons.IH [OF fl k1 ex] r by simp
  qed
qed

lemma toolResourceOf_nonempty: "toolResourceOf f \<noteq> []"
  by (auto simp: toolResourceOf_def truthy_def EToolResources_image_edit_def
        EToolResources_file_search_def split: option.splits)

lemma toolResourceOf_tagged: "c \<noteq> [] \<Longrightarrow> tool_resource f = Some c \<Longrightarrow> toolResourceOf f = c"
  by (simp add: toolResourceOf_def truthy_def)

lemma idPairs_ids_of:
  "distinct (map fst tr) \<Longrightarrow> (c, i) \<in> set (idPairs tr) \<longleftrightarrow> i \<in> set (ids_of tr c)"
proof -
  assume d: "distinct (map fst tr)"
  have "i \<in> set (ids_of tr c)
          \<longleftrightarrow> (\<exists>r ids. map_of tr c = Some r \<and> file_ids r = Some ids \<and> i \<in> set ids)"
  proof (cases "map_of tr c")
    case None
    then show ?thesis by (simp add: ids_of_def)
  next
    case (Some r)
    then show ?thesis by (cases "file_ids r") (simp_all add: ids_of_def)
  qed
  then show ?thesis using d by (simp add: idPairs_mem)
qed

text \<open>The object after the loop, when no category is the name of an inherited property.\<close>

lemma projected:
  assumes "\<forall>f\<in>set fs. truthy (file_id f) \<longrightarrow> toolResourceOf f \<notin> set Object_prototype"
  shows "\<exists>tr. forEach [] fs = Inr tr
           \<and> distinct (map fst tr) \<and> filled tr
           \<and> (\<forall>c. distinct (ids_of tr c)
                 \<and> set (ids_of tr c)
                     = {the (file_id f) | f. f \<in> set fs \<and> truthy (file_id f) \<and> toolResourceOf f = c})
           \<and> fst ` set tr = {toolResourceOf f | f. f \<in> set fs \<and> truthy (file_id f)}"
proof -
  have 1: "distinct (map fst ([] :: AgentToolResources))" by simp
  have 2: "filled []" by (simp add: filled_def)
  have 3: "ids_of [] c = []" for c by (simp add: ids_of_def)
  then have 4: "\<forall>c. distinct (ids_of [] c)" by simp
  show ?thesis using forEach_Inr [OF 1 2 4 assms] by (simp add: 3)
qed

lemma projected_Inr:
  assumes "\<forall>f\<in>set fs. truthy (file_id f) \<longrightarrow> toolResourceOf f \<notin> set Object_prototype"
  shows "\<exists>tr. forEach [] fs = Inr tr"
proof -
  from projected [OF assms] obtain tr where "forEach [] fs = Inr tr \<and>
           distinct (map fst tr) \<and> filled tr
           \<and> (\<forall>c. distinct (ids_of tr c)
                 \<and> set (ids_of tr c)
                     = {the (file_id f) | f. f \<in> set fs \<and> truthy (file_id f) \<and> toolResourceOf f = c})
           \<and> fst ` set tr = {toolResourceOf f | f. f \<in> set fs \<and> truthy (file_id f)}" ..
  then have "forEach [] fs = Inr tr" ..
  then show ?thesis ..
qed

lemma projected_all:
  assumes "\<forall>f\<in>set fs. truthy (file_id f) \<longrightarrow> toolResourceOf f \<notin> set Object_prototype"
      and "forEach [] fs = Inr tr"
  shows "distinct (map fst tr) \<and> filled tr
           \<and> (\<forall>c. distinct (ids_of tr c)
                 \<and> set (ids_of tr c)
                     = {the (file_id f) | f. f \<in> set fs \<and> truthy (file_id f) \<and> toolResourceOf f = c})
           \<and> fst ` set tr = {toolResourceOf f | f. f \<in> set fs \<and> truthy (file_id f)}"
proof -
  from projected [OF assms(1)] obtain tr' where t: "forEach [] fs = Inr tr' \<and>
           (distinct (map fst tr') \<and> filled tr'
           \<and> (\<forall>c. distinct (ids_of tr' c)
                 \<and> set (ids_of tr' c)
                     = {the (file_id f) | f. f \<in> set fs \<and> truthy (file_id f) \<and> toolResourceOf f = c})
           \<and> fst ` set tr' = {toolResourceOf f | f. f \<in> set fs \<and> truthy (file_id f)})" ..
  from t have "forEach [] fs = Inr tr'" ..
  with assms(2) have e: "tr' = tr" by simp
  from t have "distinct (map fst tr') \<and> filled tr'
           \<and> (\<forall>c. distinct (ids_of tr' c)
                 \<and> set (ids_of tr' c)
                     = {the (file_id f) | f. f \<in> set fs \<and> truthy (file_id f) \<and> toolResourceOf f = c})
           \<and> fst ` set tr' = {toolResourceOf f | f. f \<in> set fs \<and> truthy (file_id f)}" ..
  then show ?thesis unfolding e .
qed

lemma projected_distinct:
  assumes "\<forall>f\<in>set fs. truthy (file_id f) \<longrightarrow> toolResourceOf f \<notin> set Object_prototype"
      and "forEach [] fs = Inr tr"
  shows "distinct (map fst tr)"
  using projected_all [OF assms] by (elim conjE)

lemma projected_filled:
  assumes "\<forall>f\<in>set fs. truthy (file_id f) \<longrightarrow> toolResourceOf f \<notin> set Object_prototype"
      and "forEach [] fs = Inr tr"
  shows "filled tr"
  using projected_all [OF assms] by (elim conjE)

lemma projected_ids:
  assumes "\<forall>f\<in>set fs. truthy (file_id f) \<longrightarrow> toolResourceOf f \<notin> set Object_prototype"
      and "forEach [] fs = Inr tr"
  shows "distinct (ids_of tr c)
         \<and> set (ids_of tr c)
              = {the (file_id f) | f. f \<in> set fs \<and> truthy (file_id f) \<and> toolResourceOf f = c}"
proof -
  from projected_all [OF assms]
  have "\<forall>c. distinct (ids_of tr c)
                 \<and> set (ids_of tr c)
                     = {the (file_id f) | f. f \<in> set fs \<and> truthy (file_id f) \<and> toolResourceOf f = c}"
    by (elim conjE)
  then show ?thesis ..
qed

lemma projected_keys:
  assumes "\<forall>f\<in>set fs. truthy (file_id f) \<longrightarrow> toolResourceOf f \<notin> set Object_prototype"
      and "forEach [] fs = Inr tr"
  shows "fst ` set tr = {toolResourceOf f | f. f \<in> set fs \<and> truthy (file_id f)}"
  using projected_all [OF assms] by (elim conjE)

lemma projected_pairs:
  assumes "\<forall>f\<in>set fs. truthy (file_id f) \<longrightarrow> toolResourceOf f \<notin> set Object_prototype"
      and "forEach [] fs = Inr tr"
  shows "(c, i) \<in> set (idPairs tr)
           \<longleftrightarrow> (\<exists>f\<in>set fs. truthy (file_id f) \<and> toolResourceOf f = c \<and> the (file_id f) = i)"
proof -
  have "(c, i) \<in> set (idPairs tr) \<longleftrightarrow> i \<in> set (ids_of tr c)"
    using projected_distinct [OF assms] by (rule idPairs_ids_of)
  also have "\<dots> \<longleftrightarrow> i \<in> {the (file_id f) | f. f \<in> set fs \<and> truthy (file_id f) \<and> toolResourceOf f = c}"
    using projected_ids [OF assms, of c] by simp
  also have "\<dots> \<longleftrightarrow> (\<exists>f\<in>set fs. truthy (file_id f) \<and> toolResourceOf f = c \<and> the (file_id f) = i)"
    by blast
  finally show ?thesis .
qed

lemma keys_setAll: "fst ` set (setAll e m ps) = fst ` set m \<union> Some ` snd ` set ps"
proof (induction ps rule: rev_induct)
  case Nil
  then show ?case by (simp add: setAll_def)
next
  case (snoc x ps)
  obtain c j where x: "x = (c, j)" by (cases x)
  have "setAll e m (ps @ [x]) = map_set (Some j) (theFile e c j) (setAll e m ps)"
    by (simp add: x setAll_def)
  then show ?case using snoc by (auto simp: keys_map_set x)
qed

lemma distinct_setAll: "distinct (map fst m) \<Longrightarrow> distinct (map fst (setAll e m ps))"
proof (induction ps rule: rev_induct)
  case Nil
  then show ?case by (simp add: setAll_def)
next
  case (snoc x ps)
  obtain c j where x: "x = (c, j)" by (cases x)
  have "setAll e m (ps @ [x]) = map_set (Some j) (theFile e c j) (setAll e m ps)"
    by (simp add: x setAll_def)
  then show ?case using snoc by (simp add: distinct_map_set)
qed

lemma setAll_entries:
  "(k, g) \<in> set (setAll e [] ps)
     \<longleftrightarrow> (\<exists>c i. k = Some i \<and> find (\<lambda>(c, j). j = i) (rev ps) = Some (c, i) \<and> g = theFile e c i)"
proof (cases k)
  case None
  have "None \<notin> fst ` set (setAll e [] ps)" by (auto simp: keys_setAll)
  then have "(None, g) \<notin> set (setAll e [] ps)" by force
  then show ?thesis using None by simp
next
  case (Some i)
  have "distinct (map fst (setAll e [] ps))" by (simp add: distinct_setAll)
  then have "(Some i, g) \<in> set (setAll e [] ps) \<longleftrightarrow> map_of (setAll e [] ps) (Some i) = Some g"
    by simp
  also have "\<dots> \<longleftrightarrow> (\<exists>c. find (\<lambda>(c, j). j = i) (rev ps) = Some (c, i) \<and> g = theFile e c i)"
    by (auto simp: map_of_setAll split: option.splits dest: find_Some_mem)
  finally show ?thesis using Some by simp
qed

text \<open>
  What the projection is made of.  It throws exactly when a record with a \<open>file_id\<close> has
  a category that is the name of an inherited property.  When it returns, the result is
  absent exactly when no record has a \<open>file_id\<close>; otherwise the categories are different,
  and each holds a list, not empty and without repetition, of the \<open>file_id\<close>s of the
  records of that category.
\<close>

lemma getToolResources_throws_iff:
  "getToolResources fs = Inl (Thrown ''TypeError'')
     \<longleftrightarrow> (\<exists>f\<in>set fs. truthy (file_id f) \<and> toolResourceOf f \<in> set Object_prototype)"
proof (cases "\<exists>f\<in>set fs. truthy (file_id f) \<and> toolResourceOf f \<in> set Object_prototype")
  case True
  then have ne: "fs \<noteq> []" by auto
  have 1: "filled []" by (simp add: filled_def)
  have 2: "fst ` set ([] :: AgentToolResources) \<inter> set Object_prototype = {}" by simp
  have "forEach [] fs = Inl (Thrown ''TypeError'')"
    using 1 2 True by (rule forEach_Inl)
  then have "getToolResources fs = Inl (Thrown ''TypeError'')"
    using ne by (simp add: getToolResources_def)
  with True show ?thesis by blast
next
  case False
  then have ok: "\<forall>f\<in>set fs. truthy (file_id f) \<longrightarrow> toolResourceOf f \<notin> set Object_prototype" by blast
  from projected_Inr [OF ok] obtain tr where "forEach [] fs = Inr tr" ..
  then have "getToolResources fs \<noteq> Inl (Thrown ''TypeError'')"
    by (simp add: getToolResources_def)
  with False show ?thesis by blast
qed

lemma getToolResources_Inr:
  assumes "getToolResources fs = Inr r"
  shows "(\<forall>f\<in>set fs. truthy (file_id f) \<longrightarrow> toolResourceOf f \<notin> set Object_prototype)
         \<and> (\<exists>tr. forEach [] fs = Inr tr \<and> r = (if tr \<noteq> [] then Some tr else None))"
proof -
  have "\<not> (\<exists>f\<in>set fs. truthy (file_id f) \<and> toolResourceOf f \<in> set Object_prototype)"
  proof
    assume "\<exists>f\<in>set fs. truthy (file_id f) \<and> toolResourceOf f \<in> set Object_prototype"
    then have "getToolResources fs = Inl (Thrown ''TypeError'')"
      by (simp only: getToolResources_throws_iff)
    with assms show False by simp
  qed
  then have ok: "\<forall>f\<in>set fs. truthy (file_id f) \<longrightarrow> toolResourceOf f \<notin> set Object_prototype"
    by blast
  from projected_Inr [OF ok] obtain tr where tr: "forEach [] fs = Inr tr" ..
  have "r = (if tr \<noteq> [] then Some tr else None)"
  proof (cases "fs = []")
    case True
    then show ?thesis using assms tr by (simp add: getToolResources_def)
  next
    case False
    then show ?thesis using assms tr by (simp add: getToolResources_def)
  qed
  with ok tr show ?thesis by blast
qed

lemma getToolResources_None_iff:
  "getToolResources fs = Inr None \<longleftrightarrow> (\<forall>f\<in>set fs. \<not> truthy (file_id f))"
proof
  assume a: "getToolResources fs = Inr None"
  from getToolResources_Inr [OF a]
  obtain tr where ok: "\<forall>f\<in>set fs. truthy (file_id f) \<longrightarrow> toolResourceOf f \<notin> set Object_prototype"
    and tr: "forEach [] fs = Inr tr" and e: "None = (if tr \<noteq> [] then Some tr else None)"
    by (elim exE conjE)
  from e have "tr = []" by (simp split: if_splits)
  moreover from projected_keys [OF ok tr]
  have "fst ` set tr = {toolResourceOf f | f. f \<in> set fs \<and> truthy (file_id f)}" .
  ultimately have "{toolResourceOf f | f. f \<in> set fs \<and> truthy (file_id f)} = {}" by simp
  then show "\<forall>f\<in>set fs. \<not> truthy (file_id f)" by blast
next
  assume a: "\<forall>f\<in>set fs. \<not> truthy (file_id f)"
  then have ok: "\<forall>f\<in>set fs. truthy (file_id f) \<longrightarrow> toolResourceOf f \<notin> set Object_prototype" by blast
  from projected_Inr [OF ok] obtain tr where tr: "forEach [] fs = Inr tr" ..
  have "fst ` set tr = {toolResourceOf f | f. f \<in> set fs \<and> truthy (file_id f)}"
    using ok tr by (rule projected_keys)
  also have "\<dots> = {}" using a by blast
  finally have "tr = []" by simp
  then show "getToolResources fs = Inr None" using tr by (simp add: getToolResources_def)
qed

lemma getToolResources_Some:
  assumes "getToolResources fs = Inr (Some tr)"
  shows "distinct (map fst tr)
         \<and> (\<forall>(c, r)\<in>set tr. \<exists>ids. file_ids r = Some ids \<and> ids \<noteq> [] \<and> distinct ids
               \<and> set ids = {the (file_id f) | f. f \<in> set fs \<and> truthy (file_id f) \<and> toolResourceOf f = c})"
proof -
  from getToolResources_Inr [OF assms]
  obtain tr0 where ok: "\<forall>f\<in>set fs. truthy (file_id f) \<longrightarrow> toolResourceOf f \<notin> set Object_prototype"
    and tr0: "forEach [] fs = Inr tr0" and e: "Some tr = (if tr0 \<noteq> [] then Some tr0 else None)"
    by (elim exE conjE)
  from e have eq: "tr0 = tr" by (simp split: if_splits)
  have tr: "forEach [] fs = Inr tr" using tr0 eq by simp
  have d: "distinct (map fst tr)" using ok tr by (rule projected_distinct)
  have fl: "filled tr" using ok tr by (rule projected_filled)
  have "\<exists>ids. file_ids r = Some ids \<and> ids \<noteq> [] \<and> distinct ids
               \<and> set ids = {the (file_id f) | f. f \<in> set fs \<and> truthy (file_id f) \<and> toolResourceOf f = c}"
    if "(c, r) \<in> set tr" for c r
  proof -
    from that d have m: "map_of tr c = Some r" by simp
    from fl m obtain ids where ids: "file_ids r = Some ids" and ne: "ids_of tr c \<noteq> []"
      unfolding filled_def by blast
    then have i: "ids_of tr c = ids" by (simp add: ids_of_def m)
    have "distinct (ids_of tr c)
            \<and> set (ids_of tr c)
                 = {the (file_id f) | f. f \<in> set fs \<and> truthy (file_id f) \<and> toolResourceOf f = c}"
      using ok tr by (rule projected_ids)
    then show ?thesis using ne unfolding i by (simp add: ids)
  qed
  then show ?thesis using d by blast
qed

lemma truthy_Some: "truthy x \<Longrightarrow> x = Some (the x)"
  by (cases x) (simp_all add: truthy_def)

lemma toolResourceOf_theFile:
  "c \<noteq> [] \<Longrightarrow> toolResourceOf (theFile e c i) = c"
  using theFile_always [of e c i] by (simp add: toolResourceOf_tagged)

text \<open>
  Claim C2, amended.  Take a registry in which every record has an identifier, no
  identifier stands under two categories, and no category is the name of a property that
  every object inherits; and a metadata lookup that resolves every identifier of the
  registry.  Then the projection returns, restoring what it returns into any state of the
  hook succeeds, and the restored registry has exactly the identifier-to-category
  assignments of the original one.
\<close>

theorem project_then_restore:
  assumes ids: "\<forall>f\<in>set (promptFiles s). truthy (file_id f)"
      and one: "\<forall>f\<in>set (promptFiles s). \<forall>g\<in>set (promptFiles s).
                  file_id f = file_id g \<longrightarrow> toolResourceOf f = toolResourceOf g"
      and cats: "\<forall>f\<in>set (promptFiles s). toolResourceOf f \<notin> set Object_prototype"
      and res: "\<forall>f\<in>set (promptFiles s).
                  \<exists>d. lookup (fileMap (allFiles e)) (the (file_id f)) = Found d"
  shows "\<exists>tr s'. getToolResources (promptFiles s) = Inr tr
              \<and> loadFromToolResources e tr s0 = Inr s'
              \<and> assignments (files s') = assignments (files s)"
proof -
  let ?fs = "promptFiles s"
  have ok: "\<forall>f\<in>set ?fs. truthy (file_id f) \<longrightarrow> toolResourceOf f \<notin> set Object_prototype"
    using cats by blast
  from projected_Inr [OF ok] obtain tr where tr: "forEach [] ?fs = Inr tr" ..
  note pairs = projected_pairs [OF ok tr]
  show ?thesis
  proof (cases "?fs = []")
    case True
    then have g: "getToolResources ?fs = Inr None" by (simp add: getToolResources_def)
    have l: "loadFromToolResources e None s0 = Inr (s0\<lparr>files := []\<rparr>)"
      by (simp add: loadFromToolResources_def)
    have "assignments (files s) = {}"
      using True by (simp add: assignments_def promptFiles_def)
    then have "assignments (files (s0\<lparr>files := []\<rparr>)) = assignments (files s)"
      by (simp add: assignments_def map_values_def)
    with g l show ?thesis by blast
  next
    case False
    then obtain f0 where f0: "f0 \<in> set ?fs" by (cases ?fs) auto
    have "toolResourceOf f0 \<in> {toolResourceOf f | f. f \<in> set ?fs \<and> truthy (file_id f)}"
      using f0 ids by blast
    then have "toolResourceOf f0 \<in> fst ` set tr"
      by (simp only: projected_keys [OF ok tr])
    then have ne: "tr \<noteq> []" by auto
    have g: "getToolResources ?fs = Inr (Some tr)"
      using False tr ne by (simp add: getToolResources_def)
    let ?m = "setAll e [] (idPairs tr)"
    have l: "loadFromToolResources e (Some tr) s0 = Inr (s0\<lparr>files := ?m\<rparr>)"
      by (rule loadFromToolResources_setAll)
    have "assignments ?m = assignments (files s)"
    proof (intro set_eqI iffI)
      fix x assume "x \<in> assignments ?m"
      then obtain k g where kg: "(k, g) \<in> set ?m" and x: "x = (file_id g, toolResourceOf g)"
        by (auto simp: assignments_def map_values_def)
      from kg obtain c i where k: "k = Some i"
          and c: "find (\<lambda>(c, j). j = i) (rev (idPairs tr)) = Some (c, i)"
          and g: "g = theFile e c i"
        by (auto simp: setAll_entries)
      from c have "(c, i) \<in> set (idPairs tr)"
        using find_Some_mem [of "\<lambda>(c, j). j = i" "rev (idPairs tr)" "(c, i)"] by simp
      then obtain f where f: "f \<in> set ?fs" "truthy (file_id f)" "toolResourceOf f = c"
          "the (file_id f) = i"
        unfolding pairs by blast
      have fi: "file_id f = Some i" using truthy_Some [OF f(2)] f(4) by simp
      from res f(1) f(4) obtain d where "lookup (fileMap (allFiles e)) i = Found d" by blast
      then have "lookup (fileMap (allFiles e)) i \<noteq> Inherited" by simp
      then have "file_id g = Some i" unfolding g by (simp add: theFile_identified)
      moreover have "c \<noteq> []" using f(3) toolResourceOf_nonempty [of f] by simp
      then have "toolResourceOf g = c" unfolding g by (rule toolResourceOf_theFile)
      ultimately have "x = (file_id f, toolResourceOf f)" using x f(3) fi by simp
      then show "x \<in> assignments (files s)"
        using f(1) by (auto simp: assignments_def promptFiles_def)
    next
      fix x assume "x \<in> assignments (files s)"
      then obtain f where f: "f \<in> set ?fs" and x: "x = (file_id f, toolResourceOf f)"
        by (auto simp: assignments_def promptFiles_def)
      let ?i = "the (file_id f)"
      have tf: "truthy (file_id f)" using ids f by blast
      have fi: "file_id f = Some ?i" using tf by (rule truthy_Some)
      have "(toolResourceOf f, ?i) \<in> set (idPairs tr)"
        unfolding pairs using f tf by blast
      from find_rev_pairs [OF this]
      obtain c where c: "find (\<lambda>(c, j). j = ?i) (rev (idPairs tr)) = Some (c, ?i)"
          and mem: "(c, ?i) \<in> set (idPairs tr)"
        by (elim exE conjE)
      from mem obtain f' where f': "f' \<in> set ?fs" "truthy (file_id f')" "toolResourceOf f' = c"
          "the (file_id f') = ?i"
        unfolding pairs by blast
      have "file_id f' = file_id f"
        using truthy_Some [OF f'(2)] f'(4) fi by simp
      with one f f'(1) f'(3) have cf: "c = toolResourceOf f" by metis
      let ?g = "theFile e c ?i"
      have in_m: "(Some ?i, ?g) \<in> set ?m"
        using c by (simp add: setAll_entries)
      from res f obtain d where "lookup (fileMap (allFiles e)) ?i = Found d" by blast
      then have "lookup (fileMap (allFiles e)) ?i \<noteq> Inherited" by simp
      then have gi: "file_id ?g = Some ?i" by (simp add: theFile_identified)
      have "c \<noteq> []" using cf toolResourceOf_nonempty [of f] by simp
      then have gc: "toolResourceOf ?g = c" by (rule toolResourceOf_theFile)
      have "?g \<in> set (map_values ?m)" using in_m by (force simp: map_values_def)
      moreover have "x = (file_id ?g, toolResourceOf ?g)"
        using x gi gc cf fi by simp
      ultimately show "x \<in> assignments ?m"
        unfolding assignments_def by blast
    qed
    then have "assignments (files (s0\<lparr>files := ?m\<rparr>)) = assignments (files s)" by simp
    with g l show ?thesis by blast
  qed
qed

lemma promptFiles_png_selected: "promptFiles png_selected = [newExtendedFile None png_file]"
  by (simp add: promptFiles_def map_values_def files_png_selected)

lemma promptFiles_twice:
  "promptFiles twice = [record_a ''ocr'' 1, record_a ''file_search'' 1]"
  by (simp add: promptFiles_def map_values_def twice_def)

lemma promptFiles_constructor_selected:
  "promptFiles constructor_selected = [newExtendedFile (Some ''constructor'') text_file]"
  by (simp add: promptFiles_def map_values_def constructor_selected_def handleFileChange_def
        selectFile_def initialState_def newExtendedFile_def text_file_def)

text \<open>
  An uploaded text file is projected and restored into a hook that holds another file,
  an image just selected: the restored registry holds the assignment of the text file,
  and not the one of the image.
\<close>

theorem project_then_restore_witness:
  "list_all (\<lambda>f. truthy (file_id f)) (promptFiles (onSuccess uploaded text_selected))
   \<and> list_all (\<lambda>f. toolResourceOf f \<notin> set Object_prototype)
        (promptFiles (onSuccess uploaded text_selected))
   \<and> list_all (\<lambda>f. lookup (fileMap (allFiles (online\<lparr>allFiles := [uploaded]\<rparr>)))
                      (the (file_id f)) = Found uploaded)
        (promptFiles (onSuccess uploaded text_selected))
   \<and> distinct (map file_id (promptFiles (onSuccess uploaded text_selected)))
   \<and> assignments (files (onSuccess uploaded text_selected)) = {(Some ''f1'', ''file_search'')}
   \<and> assignments (files png_selected) = {(Some ''u2'', ''image_edit'')}
   \<and> (\<exists>tr s'. getToolResources (promptFiles (onSuccess uploaded text_selected)) = Inr tr
          \<and> loadFromToolResources (online\<lparr>allFiles := [uploaded]\<rparr>) tr png_selected = Inr s'
          \<and> assignments (files s') = {(Some ''f1'', ''file_search'')})"
proof -
  let ?s = "onSuccess uploaded text_selected"
  let ?e = "online\<lparr>allFiles := [uploaded]\<rparr>"
  let ?f = "updatedFile uploaded (newExtendedFile None text_file)"
  note fs = promptFiles_uploaded
  have id: "file_id ?f = Some ''f1''"
    by (simp add: updatedFile_def uploaded_def)
  have cat: "toolResourceOf ?f = ''file_search''"
    by (simp add: toolResourceOf_def updatedFile_def newExtendedFile_def text_file_def
          truthy_def startsWith_def EToolResources_file_search_def)
  have np: "''file_search'' \<notin> set Object_prototype"
    by (simp add: Object_prototype_def)
  have fm: "lookup (fileMap (allFiles ?e)) ''f1'' = Found uploaded"
    by (simp add: fileMap_def lookup_def uploaded_def)
  have h1: "\<forall>f\<in>set (promptFiles ?s). truthy (file_id f)"
    by (simp add: fs id truthy_def)
  have h2: "\<forall>f\<in>set (promptFiles ?s). \<forall>g\<in>set (promptFiles ?s).
              file_id f = file_id g \<longrightarrow> toolResourceOf f = toolResourceOf g"
    by (simp add: fs)
  have h3: "\<forall>f\<in>set (promptFiles ?s). toolResourceOf f \<notin> set Object_prototype"
    using np by (simp add: fs cat)
  have h4: "\<forall>f\<in>set (promptFiles ?s).
              \<exists>d. lookup (fileMap (allFiles ?e)) (the (file_id f)) = Found d"
    using fm by (simp add: fs id)
  have h4': "list_all (\<lambda>f. lookup (fileMap (allFiles ?e)) (the (file_id f)) = Found uploaded)
               (promptFiles ?s)"
    using fm by (simp add: fs id)
  have a: "assignments (files ?s) = {(Some ''f1'', ''file_search'')}"
    using fs by (simp add: assignments_def promptFiles_def id cat)
  have b: "assignments (files png_selected) = {(Some ''u2'', ''image_edit'')}"
    by (simp add: assignments_def map_values_def files_png_selected toolResourceOf_def
          newExtendedFile_def png_file_def truthy_def startsWith_def
          EToolResources_image_edit_def)
  have d: "distinct (map file_id (promptFiles ?s))"
    by (simp add: fs)
  have c: "\<exists>tr s'. getToolResources (promptFiles ?s) = Inr tr
          \<and> loadFromToolResources ?e tr png_selected = Inr s'
          \<and> assignments (files s') = {(Some ''f1'', ''file_search'')}"
    using project_then_restore [OF h1 h2 h3 h4, of png_selected] unfolding a .
  have l1: "list_all (\<lambda>f. truthy (file_id f)) (promptFiles ?s)"
    using h1 by (simp add: list_all_iff)
  have l3: "list_all (\<lambda>f. toolResourceOf f \<notin> set Object_prototype) (promptFiles ?s)"
    using h3 by (simp add: list_all_iff)
  from l1 l3 h4' d a b c show ?thesis by (intro conjI)
qed

text \<open>
  Without the two conditions the assignments are not restored.  Two records share the
  identifier \<open>a\<close>, one under \<open>ocr\<close> and one under \<open>file_search\<close>, and the lookup resolves
  \<open>a\<close>: the projection lists \<open>a\<close> under both categories, and the restored registry, which
  is keyed by identifier, keeps \<open>a\<close> under \<open>file_search\<close> only.  And for a record under the
  category \<open>constructor\<close> the projection throws a \<open>TypeError\<close>, so that there is nothing
  to restore.
\<close>

theorem project_then_restore_counterexample:
  "list_all (\<lambda>f. truthy (file_id f)) (promptFiles twice)
   \<and> list_all (\<lambda>f. lookup (fileMap (allFiles knows_a)) (the (file_id f)) = Found file_a)
        (promptFiles twice)
   \<and> assignments (files twice) = {(Some ''a'', ''ocr''), (Some ''a'', ''file_search'')}
   \<and> getToolResources (promptFiles twice)
       = Inr (Some [(''ocr'', \<lparr>file_ids = Some [''a'']\<rparr>),
                    (''file_search'', \<lparr>file_ids = Some [''a'']\<rparr>)])
   \<and> (\<exists>s'. loadFromToolResources knows_a
               (Some [(''ocr'', \<lparr>file_ids = Some [''a'']\<rparr>),
                      (''file_search'', \<lparr>file_ids = Some [''a'']\<rparr>)]) twice = Inr s'
          \<and> assignments (files s') = {(Some ''a'', ''file_search'')}
          \<and> assignments (files s') \<noteq> assignments (files twice))
   \<and> list_all (\<lambda>f. truthy (file_id f)) (promptFiles constructor_selected)
   \<and> getToolResources (promptFiles constructor_selected) = Inl (Thrown ''TypeError'')"
proof -
  let ?tr = "[(''ocr'', \<lparr>file_ids = Some [''a'']\<rparr>), (''file_search'', \<lparr>file_ids = Some [''a'']\<rparr>)]"
  have c1: "toolResourceOf (record_a ''ocr'' 1) = ''ocr''"
    by (simp add: toolResourceOf_def record_a_def truthy_def)
  have c2: "toolResourceOf (record_a ''file_search'' 1) = ''file_search''"
    by (simp add: toolResourceOf_def record_a_def truthy_def)
  have i: "file_id (record_a c p) = Some ''a''" for c p
    by (simp add: record_a_def)
  have 1: "list_all (\<lambda>f. truthy (file_id f)) (promptFiles twice)"
    by (simp add: promptFiles_twice i truthy_def)
  have fm: "lookup (fileMap (allFiles knows_a)) ''a'' = Found file_a"
    by (simp add: knows_a_def fileMap_def lookup_def file_a_def)
  have 2: "list_all (\<lambda>f. lookup (fileMap (allFiles knows_a)) (the (file_id f)) = Found file_a)
        (promptFiles twice)"
    using fm by (simp add: promptFiles_twice i)
  have 3: "assignments (files twice) = {(Some ''a'', ''ocr''), (Some ''a'', ''file_search'')}"
    using promptFiles_twice by (simp add: assignments_def promptFiles_def i c1 c2)
  have 4: "getToolResources (promptFiles twice) = Inr (Some ?tr)"
    by (simp add: promptFiles_twice getToolResources_def addToolResource_def pushFileId_def
          c1 c2 i truthy_def Let_def Object_prototype_def)
  have p: "idPairs ?tr = [(''ocr'', ''a''), (''file_search'', ''a'')]"
    by (simp add: idPairs_def Object_entries_def arrayIndex_def)
  have ni: "lookup (fileMap (allFiles knows_a)) ''a'' \<noteq> Inherited" using fm by simp
  have t: "file_id (theFile knows_a ''file_search'' ''a'') = Some ''a''
           \<and> toolResourceOf (theFile knows_a ''file_search'' ''a'') = ''file_search''"
    using theFile_identified [OF ni, of "''file_search''"]
      toolResourceOf_theFile [of "''file_search''" knows_a "''a''"] by simp
  have m: "setAll knows_a [] (idPairs ?tr)
             = [(Some ''a'', theFile knows_a ''file_search'' ''a'')]"
    by (simp add: p setAll_def)
  have r: "assignments (setAll knows_a [] (idPairs ?tr)) = {(Some ''a'', ''file_search'')}"
    unfolding m using t by (simp add: assignments_def map_values_def)
  have neq: "{(Some ''a'', ''file_search'')} \<noteq> {(Some ''a'', ''ocr''), (Some ''a'', ''file_search'')}"
    by auto
  have 5: "\<exists>s'. loadFromToolResources knows_a (Some ?tr) twice = Inr s'
          \<and> assignments (files s') = {(Some ''a'', ''file_search'')}
          \<and> assignments (files s') \<noteq> assignments (files twice)"
    using r neq unfolding 3 by (simp add: loadFromToolResources_setAll)
  have cc: "toolResourceOf (newExtendedFile (Some ''constructor'') text_file) = ''constructor''"
    by (simp add: toolResourceOf_def newExtendedFile_def truthy_def)
  have ci: "file_id (newExtendedFile (Some ''constructor'') text_file) = Some ''u1''"
    by (simp add: newExtendedFile_def text_file_def)
  have 6: "list_all (\<lambda>f. truthy (file_id f)) (promptFiles constructor_selected)"
    by (simp add: promptFiles_constructor_selected ci truthy_def)
  have 7: "getToolResources (promptFiles constructor_selected) = Inl (Thrown ''TypeError'')"
    by (simp add: promptFiles_constructor_selected getToolResources_def addToolResource_def
          pushFileId_def cc ci truthy_def Let_def Object_prototype_def)
  from 1 2 3 4 5 6 7 show ?thesis by (intro conjI)
qed

subsection \<open>The projection of a record that is still uploading\<close>

text \<open>
  Claim C1.  The registry that holds one text file just selected: the record is still
  uploading (\<open>progress\<close> 0, not attached, counted as uploading, the hook not ready) and
  its \<open>file_id\<close> is the provisional identifier.  \<open>getToolResources\<close> does not skip it: the
  projection lists the provisional identifier under \<open>file_search\<close>.
\<close>

theorem getToolResources_includes_uploading:
  "files text_selected = [(Some ''u1'', newExtendedFile None text_file)]
   \<and> file_id (newExtendedFile None text_file) = Some ''u1''
   \<and> temp_file_id (newExtendedFile None text_file) = Some ''u1''
   \<and> progress (newExtendedFile None text_file) = 0
   \<and> attached (newExtendedFile None text_file) = Some False
   \<and> uploading (fileStats (promptFiles text_selected)) = 1
   \<and> \<not> areFilesReady (promptFiles text_selected)
   \<and> getToolResources (promptFiles text_selected)
       = Inr (Some [(''file_search'', \<lparr>file_ids = Some [''u1'']\<rparr>)])"
proof -
  have fs: "promptFiles text_selected = [newExtendedFile None text_file]"
    by (simp add: promptFiles_def map_values_def files_text_selected)
  have cat: "toolResourceOf (newExtendedFile None text_file) = ''file_search''"
    by (simp add: toolResourceOf_def newExtendedFile_def text_file_def truthy_def
          startsWith_def EToolResources_file_search_def)
  have id: "file_id (newExtendedFile None text_file) = Some ''u1''"
    by (simp add: newExtendedFile_def text_file_def)
  have g: "getToolResources [newExtendedFile None text_file]
          = Inr (Some [(''file_search'', \<lparr>file_ids = Some [''u1'']\<rparr>)])"
    by (simp add: getToolResources_def addToolResource_def pushFileId_def cat id truthy_def
          Let_def Object_prototype_def)
  have p: "progress (newExtendedFile None text_file) = 0
           \<and> attached (newExtendedFile None text_file) = Some False
           \<and> temp_file_id (newExtendedFile None text_file) = Some ''u1''"
    by (simp add: newExtendedFile_def text_file_def)
  have u: "uploading (fileStats (promptFiles text_selected)) = 1"
    using p by (simp add: fs uploading_fileStats)
  have n: "\<not> areFilesReady (promptFiles text_selected)"
    using p by (simp add: fs areFilesReady_def)
  from files_text_selected id p u n g show ?thesis by (simp add: fs)
qed

subsection \<open>Runs of the hook\<close>

lemma run_snoc: "run e s (evs @ [ev]) = step e (run e s evs) ev"
  by (simp add: run_def)

lemma allowed_snoc:
  "allowed G e s (evs @ [ev]) \<longleftrightarrow> allowed G e s evs \<and> G (run e s evs) ev"
  by (induction evs arbitrary: s) (auto simp: run_def)

lemma map_of_map_delete: "map_of (map_delete k m) k' = (if k' = k then None else map_of m k')"
  by (induction m) (auto simp: map_delete_def)

lemma distinct_map_delete: "distinct (map fst m) \<Longrightarrow> distinct (map fst (map_delete k m))"
  by (simp add: map_delete_def distinct_map_filter)


lemma selectFile_fields:
  "files (selectFile tr s sel) = map_set (Some (sel_uuid sel)) (newExtendedFile tr sel) (files s)
   \<and> ((loading (selectFile tr s sel)
          = loading s @ [(newExtendedFile tr sel, the (preview (newExtendedFile tr sel)))]
        \<and> uploads (selectFile tr s sel) = uploads s)
      \<or> (loading (selectFile tr s sel) = loading s
        \<and> uploads (selectFile tr s sel) = uploads s @ [fileFormData tr sel]))"
  by (simp add: selectFile_def Let_def loadImage_def)

lemma newExtendedFile_fields:
  "file_id (newExtendedFile tr sel) = Some (sel_uuid sel)
   \<and> temp_file_id (newExtendedFile tr sel) = Some (sel_uuid sel)
   \<and> progress (newExtendedFile tr sel) = 0
   \<and> attached (newExtendedFile tr sel) = Some False"
  by (simp add: newExtendedFile_def)

subsection \<open>The abort handle\<close>

lemma abortControllerRef_selectFile:
  "abortControllerRef (selectFile tr s sel) = abortControllerRef s"
  by (simp add: selectFile_def Let_def loadImage_def)

lemma abortControllerRef_foldl_selectFile:
  "abortControllerRef (foldl (selectFile tr) s l) = abortControllerRef s"
  by (induction l arbitrary: s) (simp_all add: abortControllerRef_selectFile)

lemma abortControllerRef_step:
  "abortControllerRef s = None \<Longrightarrow> abortControllerRef (step e s ev) = None"
proof (cases ev)
  case (HandleFileChange target_files tr)
  assume "abortControllerRef s = None"
  then show ?thesis
    by (cases target_files)
       (simp_all add: HandleFileChange handleFileChange_def abortControllerRef_foldl_selectFile)
next
  case (Onload i w h)
  assume "abortControllerRef s = None"
  then show ?thesis by (simp add: Onload onload_def Let_def split: prod.splits)
next
  case (LoadFromToolResources toolResources)
  assume "abortControllerRef s = None"
  then show ?thesis
    by (cases toolResources)
       (simp_all add: LoadFromToolResources loadFromToolResources_setAll,
        simp add: loadFromToolResources_def)
qed (simp_all add: onSuccess_def onError_def handleFileRemove_def abortUpload_def)

lemma abortControllerRef_run:
  "abortControllerRef (run e (initialState initialFiles) evs) = None"
proof (induction evs rule: rev_induct)
  case Nil
  then show ?case by (simp add: run_def initialState_def)
next
  case (snoc ev evs)
  then show ?case by (simp add: run_snoc abortControllerRef_step)
qed

lemma abortUpload_run:
  "abortUpload (run e (initialState initialFiles) evs) = run e (initialState initialFiles) evs"
  by (simp add: abortUpload_def abortControllerRef_run)

lemma files_abortUpload: "files (abortUpload s) = files s"
  by (simp add: abortUpload_def split: option.splits)

text \<open>
  Claim C9.  \<open>abortUpload\<close> never touches the registry (\<open>files_abortUpload\<close>).  But
  \<open>abortControllerRef\<close> starts as \<open>null\<close> and nothing in the hook assigns a controller to
  it, nor is a signal handed to \<open>uploadFile.mutate\<close>: in every state the hook reaches the
  ref is \<open>null\<close> and \<open>abortUpload\<close> does nothing at all (\<open>abortUpload_run\<close>).  Here, with
  the upload of a text file submitted and unanswered, \<open>abortUpload\<close> leaves the state as
  it is and no controller is aborted.
\<close>

theorem abortUpload_signals_nothing:
  "uploads text_selected = [fileFormData None text_file]
   \<and> abortControllerRef text_selected = None
   \<and> abortUpload text_selected = text_selected
   \<and> aborted (abortUpload text_selected) = []"
  by (simp add: text_selected_def handleFileChange_def selectFile_def initialState_def
        newExtendedFile_def text_file_def abortUpload_def Let_def)

subsection \<open>Identifiers of the records\<close>














subsection \<open>The pipeline and the progress of a record\<close>

lemma initial_files_inv:
  fixes m :: "(string option \<times> ExtendedFile) list"
  assumes "distinct (map fst m)" "\<forall>k g. map_of m k = Some g \<longrightarrow> progress g \<le> 1"
    "\<forall>(f, uuid)\<in>set fs. progress f \<le> 1"
  shows "distinct (map fst (foldl (\<lambda>filesMap (f, uuid). map_set (Some (initialKey f uuid)) f filesMap) m fs))
        \<and> (\<forall>k g. map_of (foldl (\<lambda>filesMap (f, uuid). map_set (Some (initialKey f uuid)) f filesMap) m fs) k
                 = Some g \<longrightarrow> progress g \<le> 1)"
  using assms
proof (induction fs arbitrary: m)
  case Nil
  then show ?case by simp
next
  case (Cons a fs)
  obtain f uuid where a: "a = (f, uuid)" by (cases a)
  have pf: "progress f \<le> 1" using Cons.prems(3) by (simp add: a)
  have 1: "distinct (map fst (map_set (Some (initialKey f uuid)) f m))"
    using Cons.prems(1) by (rule distinct_map_set)
  have 2: "\<forall>k g. map_of (map_set (Some (initialKey f uuid)) f m) k = Some g \<longrightarrow> progress g \<le> 1"
    using Cons.prems(2) pf by (simp add: map_of_map_set)
  have 3: "\<forall>(f, uuid)\<in>set fs. progress f \<le> 1" using Cons.prems(3) by simp
  show ?case using Cons.IH [OF 1 2 3] by (simp add: a)
qed

lemma pipeline_inv_initialState:
  assumes "case initialFiles of None \<Rightarrow> True | Some fs \<Rightarrow> \<forall>(f, uuid)\<in>set fs. progress f \<le> 1"
  shows "pipeline_inv (initialState initialFiles)"
proof (cases initialFiles)
  case None
  then show ?thesis
    by (simp add: pipeline_inv_def initialState_def loading_ids_def submitted_ids_def)
next
  case (Some fs)
  with assms have "\<forall>(f, uuid)\<in>set fs. progress f \<le> 1" by simp
  from initial_files_inv [OF _ _ this, of "[]"] Some show ?thesis
    by (simp add: pipeline_inv_def initialState_def loading_ids_def submitted_ids_def)
qed

lemma selectFile_inv:
  assumes inv: "pipeline_inv s"
      and fresh: "Some (sel_uuid sel) \<notin> keys s \<union> loading_ids s \<and> sel_uuid sel \<notin> submitted_ids s"
  shows "pipeline_inv (selectFile tr s sel)
         \<and> (\<forall>k\<in>keys s. map_of (files (selectFile tr s sel)) k = map_of (files s) k)
         \<and> keys (selectFile tr s sel) = insert (Some (sel_uuid sel)) (keys s)
         \<and> loading_ids (selectFile tr s sel) \<subseteq> insert (Some (sel_uuid sel)) (loading_ids s)
         \<and> submitted_ids (selectFile tr s sel) \<subseteq> insert (sel_uuid sel) (submitted_ids s)"
proof -
  let ?u = "Some (sel_uuid sel)" and ?v = "sel_uuid sel" and ?r = "newExtendedFile tr sel" and ?s = "selectFile tr s sel"
  have fs: "files ?s = map_set ?u ?r (files s)"
    using selectFile_fields [of tr s sel] by simp
  have look: "map_of (files ?s) = (map_of (files s))(?u \<mapsto> ?r)"
    by (simp add: fs map_of_map_set)
  have ks: "keys ?s = insert ?u (keys s)"
    by (simp add: keys_def fs keys_map_set)
  have old: "\<forall>k\<in>keys s. map_of (files ?s) k = map_of (files s) k"
    using fresh by (auto simp: look)
  have dk: "distinct (map fst (files ?s))"
    using inv by (simp add: fs distinct_map_set pipeline_inv_def)
  have a: "\<forall>k f. map_of (files ?s) k = Some f \<longrightarrow> progress f \<le> 1"
    using inv newExtendedFile_fields [of tr sel] by (auto simp: look pipeline_inv_def)
  have absent: "map_of (files s) ?u = None"
    using fresh by (simp add: keys_def map_of_eq_None_iff)
  consider
    (image) "loading ?s = loading s @ [(?r, the (preview ?r))]" "uploads ?s = uploads s"
  | (other) "loading ?s = loading s" "uploads ?s = uploads s @ [fileFormData tr sel]"
    using selectFile_fields [of tr s sel] by blast
  then show ?thesis
  proof cases
    case image
    have li: "loading_ids ?s = insert ?u (loading_ids s)"
      using newExtendedFile_fields [of tr sel] by (auto simp: loading_ids_def image)
    have si: "submitted_ids ?s = submitted_ids s"
      by (simp add: submitted_ids_def image)
    have c: "\<forall>x\<in>loading_ids ?s. x \<noteq> None \<and> (\<forall>f. map_of (files ?s) x = Some f \<longrightarrow>
               progress f \<le> 6 / 10 \<and> temp_file_id f = x)"
      using inv newExtendedFile_fields [of tr sel]
      by (auto simp: li look pipeline_inv_def)
    have d: "distinct (map (\<lambda>(extendedFile, preview_url). file_id extendedFile) (loading ?s))"
      using inv fresh newExtendedFile_fields [of tr sel]
      by (auto simp: image pipeline_inv_def loading_ids_def)
    have e: "\<forall>x\<in>loading_ids ?s. stringOf x \<notin> submitted_ids ?s"
      using inv fresh by (auto simp: li si pipeline_inv_def stringOf_def split: option.splits)
    have "pipeline_inv ?s"
      unfolding pipeline_inv_def using a c d e dk by blast
    then show ?thesis
      using old ks li si by blast
  next
    case other
    have li: "loading_ids ?s = loading_ids s"
      by (simp add: loading_ids_def other)
    have si: "submitted_ids ?s = insert ?v (submitted_ids s)"
      by (auto simp: submitted_ids_def other fileFormData_def)
    have c: "\<forall>x\<in>loading_ids ?s. x \<noteq> None \<and> (\<forall>f. map_of (files ?s) x = Some f \<longrightarrow>
               progress f \<le> 6 / 10 \<and> temp_file_id f = x)"
      using inv fresh by (auto simp: li look pipeline_inv_def)
    have d: "distinct (map (\<lambda>(extendedFile, preview_url). file_id extendedFile) (loading ?s))"
      using inv by (simp add: other pipeline_inv_def)
    have e: "\<forall>x\<in>loading_ids ?s. stringOf x \<notin> submitted_ids ?s"
      using inv fresh by (auto simp: li si pipeline_inv_def stringOf_def split: option.splits)
    have "pipeline_inv ?s"
      unfolding pipeline_inv_def using a c d e dk by blast
    then show ?thesis
      using old ks li si by blast
  qed
qed

lemma foldl_selectFile_inv:
  assumes "pipeline_inv s" "distinct (map sel_uuid l)"
      and "\<forall>sel\<in>set l. Some (sel_uuid sel) \<notin> keys s \<union> loading_ids s \<and> sel_uuid sel \<notin> submitted_ids s"
  shows "pipeline_inv (foldl (selectFile tr) s l)
         \<and> (\<forall>k\<in>keys s. map_of (files (foldl (selectFile tr) s l)) k = map_of (files s) k)"
  using assms
proof (induction l arbitrary: s)
  case Nil
  then show ?case by simp
next
  case (Cons sel l)
  let ?s = "selectFile tr s sel"
  have fresh: "Some (sel_uuid sel) \<notin> keys s \<union> loading_ids s \<and> sel_uuid sel \<notin> submitted_ids s"
    using Cons.prems(3) by simp
  note st = selectFile_inv [OF Cons.prems(1) fresh, of tr]
  have 1: "pipeline_inv ?s" using st by blast
  have 2: "distinct (map sel_uuid l)" using Cons.prems(2) by simp
  have 3: "\<forall>x\<in>set l. Some (sel_uuid x) \<notin> keys ?s \<union> loading_ids ?s \<and> sel_uuid x \<notin> submitted_ids ?s"
  proof
    fix x assume x: "x \<in> set l"
    have "sel_uuid sel \<notin> sel_uuid ` set l" using Cons.prems(2) by simp
    with x have ne: "sel_uuid x \<noteq> sel_uuid sel" by (metis imageI)
    have "Some (sel_uuid x) \<notin> keys s \<union> loading_ids s \<and> sel_uuid x \<notin> submitted_ids s"
      using Cons.prems(3) x by simp
    with ne st show "Some (sel_uuid x) \<notin> keys ?s \<union> loading_ids ?s \<and> sel_uuid x \<notin> submitted_ids ?s"
      by blast
  qed
  have ks: "keys s \<subseteq> keys ?s" using st by blast
  have "\<forall>k\<in>keys s. map_of (files (foldl (selectFile tr) ?s l)) k = map_of (files s) k"
  proof
    fix k assume k: "k \<in> keys s"
    then have "k \<in> keys ?s" using ks by blast
    then have "map_of (files (foldl (selectFile tr) ?s l)) k = map_of (files ?s) k"
      using Cons.IH [OF 1 2 3] by blast
    also have "\<dots> = map_of (files s) k" using st k by blast
    finally show "map_of (files (foldl (selectFile tr) ?s l)) k = map_of (files s) k" .
  qed
  then show ?case using Cons.IH [OF 1 2 3] by simp
qed

lemma pipeline_inv_filesLoading: "pipeline_inv (s\<lparr>filesLoading := b\<rparr>) = pipeline_inv s"
  by (simp add: pipeline_inv_def loading_ids_def submitted_ids_def)

lemma handleFileChange_inv:
  assumes inv: "pipeline_inv s" and ok: "causal s (HandleFileChange target_files tr)"
  shows "pipeline_inv (handleFileChange target_files tr s)
         \<and> (\<forall>k\<in>keys s. map_of (files (handleFileChange target_files tr s)) k = map_of (files s) k)"
proof (cases target_files)
  case None
  then show ?thesis using inv by (simp add: handleFileChange_def)
next
  case (Some l)
  let ?s = "s\<lparr>filesLoading := True\<rparr>"
  have 1: "pipeline_inv ?s" using inv by (simp add: pipeline_inv_filesLoading)
  have 2: "distinct (map sel_uuid l)" using ok Some by simp
  have 3: "\<forall>sel\<in>set l. Some (sel_uuid sel) \<notin> keys ?s \<union> loading_ids ?s \<and> sel_uuid sel \<notin> submitted_ids ?s"
    using ok Some by (simp add: keys_def loading_ids_def submitted_ids_def)
  have "keys ?s = keys s" "files ?s = files s" by (simp_all add: keys_def)
  then show ?thesis
    using foldl_selectFile_inv [OF 1 2 3, of tr] Some by (simp add: handleFileChange_def)
qed

lemma onload_inv:
  assumes inv: "pipeline_inv s"
  shows "pipeline_inv (onload i w h s)
         \<and> (\<forall>k f f'. map_of (files s) k = Some f \<and> map_of (files (onload i w h s)) k = Some f'
               \<longrightarrow> progress f \<le> progress f')"
proof (cases "i < length (loading s)")
  case False
  then show ?thesis using inv by (auto simp: onload_def)
next
  case True
  obtain ef url where eu: "loading s ! i = (ef, url)" by (cases "loading s ! i")
  let ?x = "file_id ef"
  let ?up = "ef\<lparr>width := Some w, height := Some h, progress := 6 / 10\<rparr>"
  let ?s = "onload i w h s"
  let ?g = "\<lambda>(extendedFile, preview_url). file_id (extendedFile :: ExtendedFile)"
  have fs: "files ?s = map_set ?x ?up (files s)"
    and ld: "loading ?s = take i (loading s) @ drop (Suc i) (loading s)"
    and ups: "uploads ?s = uploads s @ [imageFormData ef w h]"
    using True by (simp_all add: onload_def eu Let_def)
  have look: "map_of (files ?s) = (map_of (files s))(?x \<mapsto> ?up)"
    by (simp add: fs map_of_map_set)
  have split: "loading s = take i (loading s) @ (ef, url) # drop (Suc i) (loading s)"
    using True eu id_take_nth_drop [of i "loading s"] by simp
  have dl: "distinct (map ?g (loading s))" using inv by (simp add: pipeline_inv_def)
  have "distinct (map ?g (take i (loading s) @ (ef, url) # drop (Suc i) (loading s)))"
    using dl split by simp
  then have d': "distinct (map ?g (loading ?s))" and notin: "?x \<notin> ?g ` set (loading ?s)"
    by (auto simp: ld)
  have "?g ` set (loading s) = insert ?x (?g ` set (loading ?s))"
    by (subst split) (auto simp: ld)
  then have li: "loading_ids s = insert ?x (loading_ids ?s)"
    by (simp add: loading_ids_def)
  have xnot: "?x \<notin> loading_ids ?s" using notin by (simp add: loading_ids_def)
  have si: "submitted_ids ?s = insert (stringOf ?x) (submitted_ids s)"
    by (auto simp: submitted_ids_def ups imageFormData_def)
  have a: "\<forall>k f. map_of (files ?s) k = Some f \<longrightarrow> progress f \<le> 1"
    using inv by (auto simp: look pipeline_inv_def)
  have c: "\<forall>y\<in>loading_ids ?s. y \<noteq> None \<and> (\<forall>f. map_of (files ?s) y = Some f \<longrightarrow>
             progress f \<le> 6 / 10 \<and> temp_file_id f = y)"
    using inv xnot li by (auto simp: look pipeline_inv_def)
  have e: "\<forall>x\<in>loading_ids ?s. stringOf x \<notin> submitted_ids ?s"
    using inv xnot li by (auto simp: si pipeline_inv_def stringOf_def split: option.splits)
  have dk: "distinct (map fst (files ?s))"
    using inv by (simp add: fs distinct_map_set pipeline_inv_def)
  have inv': "pipeline_inv ?s"
    unfolding pipeline_inv_def using a c d' e dk by blast
  have xin: "?x \<in> loading_ids s" using li by simp
  have mono: "\<forall>k f f'. map_of (files s) k = Some f \<and> map_of (files ?s) k = Some f'
               \<longrightarrow> progress f \<le> progress f'"
  proof (intro allI impI)
    fix k f f'
    assume kf: "map_of (files s) k = Some f \<and> map_of (files ?s) k = Some f'"
    show "progress f \<le> progress f'"
    proof (cases "k = ?x")
      case True
      then have "f' = ?up" using kf by (simp add: look)
      moreover have "progress f \<le> 6 / 10"
        using inv xin kf True unfolding pipeline_inv_def by blast
      ultimately show ?thesis by simp
    next
      case False
      then show ?thesis using kf by (auto simp: look)
    qed
  qed
  show ?thesis using inv' mono by blast
qed

lemma unchanged_inv:
  assumes "files s' = files s" "loading s' = loading s" "uploads s' = uploads s"
      and "pipeline_inv s"
  shows "pipeline_inv s'
         \<and> (\<forall>k f f'. map_of (files s) k = Some f \<and> map_of (files s') k = Some f'
               \<longrightarrow> progress f \<le> progress f')"
proof -
  have "pipeline_inv s' = pipeline_inv s"
    by (simp add: pipeline_inv_def loading_ids_def submitted_ids_def assms(1-3))
  moreover have "\<forall>k f f'. map_of (files s) k = Some f \<and> map_of (files s') k = Some f'
               \<longrightarrow> progress f \<le> progress f'"
    by (auto simp: assms(1))
  ultimately show ?thesis using assms(4) by blast
qed

lemma onSuccess_inv:
  assumes inv: "pipeline_inv s" and ok: "causal s (UploadSuccess data)"
  shows "pipeline_inv (onSuccess data s)
         \<and> (\<forall>k f f'. map_of (files s) k = Some f \<and> map_of (files (onSuccess data s)) k = Some f'
               \<longrightarrow> progress f \<le> progress f')"
proof (cases "find (\<lambda>(k, f). temp_file_id f = tf_temp_file_id data) (files s)")
  case None
  then have "files (onSuccess data s) = files s"
    by (simp add: onSuccess_def mergeUploaded_find)
  moreover have "loading (onSuccess data s) = loading s" "uploads (onSuccess data s) = uploads s"
    by (simp_all add: onSuccess_def)
  ultimately show ?thesis
    using inv by (rule unchanged_inv)
next
  case (Some a)
  obtain key g where a: "a = (key, g)" by (cases a)
  let ?s = "onSuccess data s"
  have fs: "files ?s = map_set key (updatedFile data g) (files s)"
    using Some by (simp add: onSuccess_def mergeUploaded_find a)
  have look: "map_of (files ?s) = (map_of (files s))(key \<mapsto> updatedFile data g)"
    by (simp add: fs map_of_map_set)
  have ld: "loading ?s = loading s" and ups: "uploads ?s = uploads s"
    by (simp_all add: onSuccess_def)
  have mem: "(key, g) \<in> set (files s)" and tmp: "temp_file_id g = tf_temp_file_id data"
    using find_Some_mem [OF Some] by (simp_all add: a)
  have dk: "distinct (map fst (files s))" using inv by (simp add: pipeline_inv_def)
  have at: "map_of (files s) key = Some g" using mem dk by simp
  from ok obtain t where t: "t \<in> submitted_ids s" "tf_temp_file_id data = Some t" by auto
  have notload: "key \<notin> loading_ids s"
  proof
    assume k: "key \<in> loading_ids s"
    then have "temp_file_id g = key"
      using inv at unfolding pipeline_inv_def by blast
    then have "key = Some t" using tmp t(2) by simp
    then have "stringOf key = t" by (simp add: stringOf_def)
    then show False using k t(1) inv unfolding pipeline_inv_def by blast
  qed
  have p1: "progress (updatedFile data g) = 1" by (simp add: updatedFile_def)
  have a1: "\<forall>k f. map_of (files ?s) k = Some f \<longrightarrow> progress f \<le> 1"
    using inv p1 by (auto simp: look pipeline_inv_def)
  have c: "\<forall>y\<in>loading_ids ?s. y \<noteq> None \<and> (\<forall>f. map_of (files ?s) y = Some f \<longrightarrow>
             progress f \<le> 6 / 10 \<and> temp_file_id f = y)"
    using inv notload by (auto simp: look loading_ids_def ld pipeline_inv_def)
  have d: "distinct (map (\<lambda>(extendedFile, preview_url). file_id extendedFile) (loading ?s))"
    using inv by (simp add: ld pipeline_inv_def)
  have e: "\<forall>x\<in>loading_ids ?s. stringOf x \<notin> submitted_ids ?s"
    using inv by (simp add: loading_ids_def submitted_ids_def ld ups pipeline_inv_def)
  have dk': "distinct (map fst (files ?s))"
    using dk by (simp add: fs distinct_map_set)
  have inv': "pipeline_inv ?s"
    unfolding pipeline_inv_def using a1 c d e dk' by blast
  have mono: "\<forall>k f f'. map_of (files s) k = Some f \<and> map_of (files ?s) k = Some f'
               \<longrightarrow> progress f \<le> progress f'"
  proof (intro allI impI)
    fix k f f'
    assume kf: "map_of (files s) k = Some f \<and> map_of (files ?s) k = Some f'"
    show "progress f \<le> progress f'"
    proof (cases "k = key")
      case True
      then have "f' = updatedFile data g" using kf by (simp add: look)
      moreover have "progress f \<le> 1" using inv kf unfolding pipeline_inv_def by blast
      ultimately show ?thesis by (simp add: p1)
    next
      case False
      then show ?thesis using kf by (auto simp: look)
    qed
  qed
  show ?thesis using inv' mono by blast
qed

lemma handleFileRemove_inv:
  assumes inv: "pipeline_inv s"
  shows "pipeline_inv (handleFileRemove fileId s)
         \<and> (\<forall>k f f'. map_of (files s) k = Some f
               \<and> map_of (files (handleFileRemove fileId s)) k = Some f'
               \<longrightarrow> progress f \<le> progress f')"
proof -
  let ?s = "handleFileRemove fileId s"
  have look: "\<And>k. map_of (files ?s) k = (if k = Some fileId then None else map_of (files s) k)"
    by (simp add: handleFileRemove_def map_of_map_delete)
  have ld: "loading_ids ?s = loading_ids s" "submitted_ids ?s = submitted_ids s"
    "loading ?s = loading s"
    by (simp_all add: handleFileRemove_def loading_ids_def submitted_ids_def)
  have dk: "distinct (map fst (files ?s))"
    using inv by (simp add: handleFileRemove_def distinct_map_delete pipeline_inv_def)
  have "pipeline_inv ?s"
    unfolding pipeline_inv_def using inv dk
    by (auto simp: look ld pipeline_inv_def split: if_splits)
  moreover have "\<forall>k f f'. map_of (files s) k = Some f \<and> map_of (files ?s) k = Some f'
               \<longrightarrow> progress f \<le> progress f'"
    by (auto simp: look split: if_splits)
  ultimately show ?thesis by blast
qed

lemma restored_progress:
  assumes "map_of (setAll e [] ps) k = Some f"
  shows "progress f = 1"
proof -
  have "k \<in> fst ` set (setAll e [] ps)"
    using map_of_SomeD [OF assms] by force
  then obtain i where k: "k = Some i" by (auto simp: keys_setAll)
  from assms obtain c where "f = theFile e c i"
    unfolding k by (auto simp: map_of_setAll split: option.splits)
  then show ?thesis using theFile_always [of e c i] by simp
qed

lemma loadFromToolResources_inv:
  assumes inv: "pipeline_inv s" and ok: "causal s (LoadFromToolResources toolResources)"
  shows "pipeline_inv (step e s (LoadFromToolResources toolResources))
         \<and> (\<forall>k f f'. map_of (files s) k = Some f
               \<and> map_of (files (step e s (LoadFromToolResources toolResources))) k = Some f'
               \<longrightarrow> progress f \<le> progress f')"
proof (cases toolResources)
  case None
  then have "step e s (LoadFromToolResources toolResources) = s\<lparr>files := []\<rparr>"
    by (simp add: loadFromToolResources_def)
  then show ?thesis
    using inv by (simp add: pipeline_inv_def loading_ids_def submitted_ids_def)
next
  case (Some tr)
  let ?m = "setAll e [] (idPairs tr)"
  let ?s = "s\<lparr>files := ?m\<rparr>"
  have st: "step e s (LoadFromToolResources toolResources) = ?s"
    using Some by (simp add: loadFromToolResources_setAll)
  have ld: "loading_ids ?s = loading_ids s" "submitted_ids ?s = submitted_ids s"
    "loading ?s = loading s" "files ?s = ?m"
    by (simp_all add: loading_ids_def submitted_ids_def)
  have none: "map_of ?m x = None" if "x \<in> loading_ids s" for x
  proof -
    have "x \<notin> Some ` snd ` set (idPairs tr)" using ok Some that by auto
    then have "x \<notin> fst ` set ?m" by (simp add: keys_setAll)
    then show ?thesis by (simp add: map_of_eq_None_iff)
  qed
  have a: "\<forall>k f. map_of (files ?s) k = Some f \<longrightarrow> progress f \<le> 1"
    using restored_progress [of e "idPairs tr"] by (auto simp: ld)
  have c: "\<forall>y\<in>loading_ids ?s. y \<noteq> None \<and> (\<forall>f. map_of (files ?s) y = Some f \<longrightarrow>
             progress f \<le> 6 / 10 \<and> temp_file_id f = y)"
    using none inv by (auto simp: ld pipeline_inv_def)
  have dk: "distinct (map fst (files ?s))" by (simp add: distinct_setAll)
  have inv': "pipeline_inv ?s"
    unfolding pipeline_inv_def using a c dk inv
    by (simp add: ld pipeline_inv_def)
  have mono: "\<forall>k f f'. map_of (files s) k = Some f \<and> map_of (files ?s) k = Some f'
               \<longrightarrow> progress f \<le> progress f'"
  proof (intro allI impI)
    fix k f f'
    assume kf: "map_of (files s) k = Some f \<and> map_of (files ?s) k = Some f'"
    then have "progress f' = 1" using restored_progress [of e "idPairs tr" k f'] by simp
    moreover have "progress f \<le> 1" using inv kf unfolding pipeline_inv_def by blast
    ultimately show "progress f \<le> progress f'" by simp
  qed
  show ?thesis unfolding st using inv' mono by blast
qed

lemma step_inv:
  assumes inv: "pipeline_inv s" and ok: "causal s ev"
  shows "pipeline_inv (step e s ev)
         \<and> (\<forall>k f f'. map_of (files s) k = Some f \<and> map_of (files (step e s ev)) k = Some f'
               \<longrightarrow> progress f \<le> progress f')"
proof (cases ev)
  case (HandleFileChange target_files tr)
  have "\<forall>k f f'. map_of (files s) k = Some f
          \<and> map_of (files (handleFileChange target_files tr s)) k = Some f'
          \<longrightarrow> progress f \<le> progress f'"
  proof (intro allI impI)
    fix k f f'
    assume kf: "map_of (files s) k = Some f
          \<and> map_of (files (handleFileChange target_files tr s)) k = Some f'"
    then have "k \<in> keys s" by (auto simp: keys_def dest: map_of_SomeD intro: rev_image_eqI)
    then have "map_of (files (handleFileChange target_files tr s)) k = map_of (files s) k"
      using handleFileChange_inv [OF inv] ok HandleFileChange by blast
    then show "progress f \<le> progress f'" using kf by simp
  qed
  then show ?thesis
    using handleFileChange_inv [OF inv] ok HandleFileChange by simp
next
  case (Onload i w h)
  then show ?thesis using onload_inv [OF inv] by simp
next
  case (UploadSuccess data)
  then show ?thesis using onSuccess_inv [OF inv] ok by simp
next
  case (UploadError err)
  have "files (onError err s) = files s" "loading (onError err s) = loading s"
    "uploads (onError err s) = uploads s"
    by (simp_all add: onError_def)
  then show ?thesis
    using unchanged_inv [OF _ _ _ inv, of "onError err s"] UploadError by simp
next
  case (HandleFileRemove fileId)
  then show ?thesis using handleFileRemove_inv [OF inv] by simp
next
  case (LoadFromToolResources toolResources)
  then show ?thesis using loadFromToolResources_inv [OF inv] ok by simp
next
  case AbortUpload
  have "files (abortUpload s) = files s" "loading (abortUpload s) = loading s"
    "uploads (abortUpload s) = uploads s"
    by (simp_all add: abortUpload_def split: option.splits)
  then show ?thesis
    using unchanged_inv [OF _ _ _ inv, of "abortUpload s"] AbortUpload by simp
qed

lemma run_inv: "pipeline_inv s \<Longrightarrow> allowed causal e s evs \<Longrightarrow> pipeline_inv (run e s evs)"
proof (induction evs rule: rev_induct)
  case Nil
  then show ?case by (simp add: run_def)
next
  case (snoc ev evs)
  then show ?case using step_inv by (simp add: allowed_snoc run_snoc)
qed

text \<open>
  Start the hook with initial files whose progress is at most 1 and let events happen in
  the order of the pipeline (\<open>causal\<close>): selections with fresh identifiers, images that
  finish loading, acknowledgments of submitted uploads, failures, removals, aborts, and
  restorations of maps that do not name the identifier of an image that is still loading.
  Then across every step of every such run, a record that is in the registry before and
  after the step, under the same key, has not lost progress.
\<close>

lemma progress_monotone:
  assumes "case initialFiles of None \<Rightarrow> True | Some fs \<Rightarrow> \<forall>(f, uuid)\<in>set fs. progress f \<le> 1"
      and "allowed causal e (initialState initialFiles) (evs @ [ev])"
      and "map_of (files (run e (initialState initialFiles) evs)) k = Some f"
      and "map_of (files (run e (initialState initialFiles) (evs @ [ev]))) k = Some f'"
  shows "progress f \<le> progress f'"
proof -
  let ?s = "run e (initialState initialFiles) evs"
  have "pipeline_inv (initialState initialFiles)"
    using assms(1) by (rule pipeline_inv_initialState)
  moreover have al: "allowed causal e (initialState initialFiles) evs" "causal ?s ev"
    using assms(2) by (simp_all add: allowed_snoc)
  ultimately have "pipeline_inv ?s" by (simp add: run_inv)
  from step_inv [OF this al(2), of e] assms(3,4) show ?thesis
    by (simp add: run_snoc)
qed

text \<open>
  Claim C8.  The progress of a record never decreases from one registry state to the
  next.  In the code \<open>img.onload\<close> writes the record that \<open>loadImage\<close> was given, at 0.6,
  over whatever the registry holds under its key by then.  A PNG is selected; the
  projection of the registry, which names the provisional identifier of the image, is
  restored, so that the record under the key is at 1; then the image finishes loading,
  and the record under the key is at 0.6.
\<close>

theorem onload_lowers_progress:
  "getToolResources (promptFiles png_selected)
     = Inr (Some [(''image_edit'', \<lparr>file_ids = Some [''u2'']\<rparr>)])
   \<and> map (\<lambda>(k, f). (k, progress f))
       (files (run offline (initialState None) [HandleFileChange (Some [png_file]) None]))
     = [(Some ''u2'', 0)]
   \<and> map (\<lambda>(k, f). (k, progress f))
       (files (run offline (initialState None)
          [HandleFileChange (Some [png_file]) None,
           LoadFromToolResources (Some [(''image_edit'', \<lparr>file_ids = Some [''u2'']\<rparr>)])]))
     = [(Some ''u2'', 1)]
   \<and> map (\<lambda>(k, f). (k, progress f))
       (files (run offline (initialState None)
          [HandleFileChange (Some [png_file]) None,
           LoadFromToolResources (Some [(''image_edit'', \<lparr>file_ids = Some [''u2'']\<rparr>)]),
           Onload 0 640 480]))
     = [(Some ''u2'', 6 / 10)]"
proof -
  let ?tr = "[(''image_edit'', \<lparr>file_ids = Some [''u2'']\<rparr>)]"
  let ?r = "newExtendedFile None png_file"
  have cat: "toolResourceOf ?r = ''image_edit''"
    by (simp add: toolResourceOf_def newExtendedFile_def png_file_def truthy_def
          startsWith_def EToolResources_image_edit_def)
  have id: "file_id ?r = Some ''u2''"
    by (simp add: newExtendedFile_def png_file_def)
  have 1: "getToolResources (promptFiles png_selected) = Inr (Some ?tr)"
    by (simp add: promptFiles_png_selected getToolResources_def addToolResource_def
          pushFileId_def cat id truthy_def Let_def Object_prototype_def)
  have s1: "run offline (initialState None) [HandleFileChange (Some [png_file]) None] = png_selected"
    by (simp add: run_def png_selected_def)
  have ld: "loading png_selected = [(?r, ''blob:u2'')]"
    by (simp add: png_selected_def handleFileChange_def selectFile_def initialState_def
          newExtendedFile_def png_file_def loadImage_def truthy_def Let_def)
  have 2: "map (\<lambda>(k, f). (k, progress f))
             (files (run offline (initialState None) [HandleFileChange (Some [png_file]) None]))
           = [(Some ''u2'', 0)]"
    unfolding s1 by (simp add: files_png_selected newExtendedFile_def)
  have l: "lookup (fileMap (allFiles offline)) ''u2'' = Absent"
    by (simp add: offline_def fileMap_def lookup_def inherited_def Object_prototype_def)
  have p: "idPairs ?tr = [(''image_edit'', ''u2'')]"
    by (simp add: idPairs_def Object_entries_def arrayIndex_def)
  have s2: "run offline (initialState None)
              [HandleFileChange (Some [png_file]) None, LoadFromToolResources (Some ?tr)]
            = png_selected\<lparr>files := [(Some ''u2'', placeholder ''image_edit'' ''u2'' ''local'')]\<rparr>"
    using l
    by (simp add: run_def png_selected_def [symmetric] loadFromToolResources_setAll p setAll_def
          theFile_placeholder EToolResources_file_search_def FileSources_local_def)
  have 3: "map (\<lambda>(k, f). (k, progress f))
       (files (run offline (initialState None)
          [HandleFileChange (Some [png_file]) None, LoadFromToolResources (Some ?tr)]))
     = [(Some ''u2'', 1)]"
    unfolding s2 by (simp add: placeholder_def)
  have s3: "run offline (initialState None)
              [HandleFileChange (Some [png_file]) None, LoadFromToolResources (Some ?tr),
               Onload 0 640 480]
            = onload 0 640 480
                (png_selected\<lparr>files := [(Some ''u2'', placeholder ''image_edit'' ''u2'' ''local'')]\<rparr>)"
    using s2 by (simp add: run_def)
  have 4: "map (\<lambda>(k, f). (k, progress f))
       (files (run offline (initialState None)
          [HandleFileChange (Some [png_file]) None, LoadFromToolResources (Some ?tr),
           Onload 0 640 480]))
     = [(Some ''u2'', 6 / 10)]"
    unfolding s3 by (simp add: onload_def ld id Let_def)
  from 1 2 3 4 show ?thesis by (intro conjI)
qed

end
